theory Spec2Isabelle
  imports Complex_Main "HOL-Library.AList" "HOL-Library.FSet"
begin

section \<open>Common data: time, durations, errors\<close>

text \<open>
  The job controller of \<^verbatim>\<open>iotfunctions/pipeline.py\<close> computes with Python
  \<^verbatim>\<open>datetime\<close> values and with durations. A point in time is a \<^verbatim>\<open>datetime\<close>: the number of
  microseconds since the epoch, between \<^verbatim>\<open>datetime.min\<close> (year 1) and \<^verbatim>\<open>datetime.max\<close>
  (year 9999). A duration that \<^verbatim>\<open>pd.to_timedelta\<close> returns is a pandas \<^verbatim>\<open>Timedelta\<close>: a
  whole number of nanoseconds held in a signed 64-bit integer. A \<^verbatim>\<open>datetime.timedelta\<close>, such
  as the difference of two dates, is a whole number of microseconds. Python's floor division
  \<^verbatim>\<open>//\<close> is \<^term>\<open>(div)\<close> on \<^typ>\<open>int\<close>, which rounds towards minus infinity as Python
  does.
\<close>

type_synonym timestamp = int
type_synonym timedelta = int
type_synonym microseconds = int

datatype error =
    ValueError string
  | TypeError string
  | ZeroDivisionError string
  | AttributeError string
  | KeyError string
  | IndexError string
  | DataWriterException string
  | UnboundLocalError string
  | OverflowError string
  | OutOfBoundsTimedelta string

text \<open>
  Two things the code reads from outside the repository: \<^verbatim>\<open>pd.to_timedelta\<close>, which parses
  a frequency string such as \<^verbatim>\<open>'5min'\<close> or \<^verbatim>\<open>'1500ns'\<close> to a number of nanoseconds
  (\<open>None\<close> where pandas raises \<^verbatim>\<open>ValueError\<close>), and midnight of the current UTC date,
  \<^verbatim>\<open>datetime.combine(utcnow().date(), time.min)\<close>.
\<close>

record env =
  to_timedelta :: "string \<Rightarrow> timedelta option"
  utc_today :: timestamp

definition datetime_min :: timestamp where
  "datetime_min = - 62135596800000000"

definition datetime_max :: timestamp where
  "datetime_max = 253402300799999999"

text \<open>The largest magnitude of a \<^verbatim>\<open>Timedelta\<close> in nanoseconds, \<^verbatim>\<open>2**63 - 1\<close>.\<close>

definition timedelta_bound :: int where
  "timedelta_bound = 9223372036854775807"

text \<open>
  \<^verbatim>\<open>pd.to_timedelta\<close> raises when the string does not parse and when the duration does not
  fit the 64 bits.
\<close>

definition parse_timedelta :: "env \<Rightarrow> string \<Rightarrow> error + timedelta" where
  "parse_timedelta E s =
     (case to_timedelta E s of
        None \<Rightarrow> Inl (ValueError ''unit abbreviation w/o a number'')
      | Some d \<Rightarrow>
          if \<bar>d\<bar> \<le> timedelta_bound then Inr d
          else Inl (OutOfBoundsTimedelta ''Cannot cast to unit ns without overflow''))"

text \<open>
  \<^verbatim>\<open>dt.timedelta(hours=h)\<close> and \<^verbatim>\<open>dt.timedelta(minutes=m)\<close> in microseconds; the
  constructor raises \<^verbatim>\<open>OverflowError\<close> when the number of days has a magnitude above
  999999999. \<open>one_day\<close> is \<^verbatim>\<open>dt.timedelta(days=1)\<close>.
\<close>

definition py_timedelta :: "microseconds \<Rightarrow> error + microseconds" where
  "py_timedelta us =
     (if - 999999999 \<le> us div 86400000000 \<and> us div 86400000000 \<le> 999999999 then Inr us
      else Inl (OverflowError ''days; must have magnitude <= 999999999''))"

definition timedelta_hours :: "int \<Rightarrow> error + microseconds" where
  "timedelta_hours h = py_timedelta (h * 3600000000)"

definition timedelta_minutes :: "int \<Rightarrow> error + microseconds" where
  "timedelta_minutes m = py_timedelta (m * 60000000)"

definition one_day :: microseconds where
  "one_day = 86400000000"

text \<open>
  \<^verbatim>\<open>datetime + timedelta\<close> and \<^verbatim>\<open>datetime - timedelta\<close> raise \<^verbatim>\<open>OverflowError\<close> when the
  result leaves the range of \<^verbatim>\<open>datetime\<close>.
\<close>

definition datetime_add :: "timestamp \<Rightarrow> microseconds \<Rightarrow> error + timestamp" where
  "datetime_add t us =
     (if datetime_min \<le> t + us \<and> t + us \<le> datetime_max then Inr (t + us)
      else Inl (OverflowError ''date value out of range''))"

definition datetime_sub :: "timestamp \<Rightarrow> microseconds \<Rightarrow> error + timestamp" where
  "datetime_sub t us =
     (if datetime_min \<le> t - us \<and> t - us \<le> datetime_max then Inr (t - us)
      else Inl (OverflowError ''date value out of range''))"

text \<open>
  A \<^verbatim>\<open>Timedelta\<close> is a subclass of \<^verbatim>\<open>datetime.timedelta\<close>, and \<^verbatim>\<open>datetime.__add__\<close> and
  \<^verbatim>\<open>datetime.__sub__\<close> read its days, seconds and microseconds: the nanoseconds below a
  microsecond are dropped, rounding towards minus infinity. \<open>one_us\<close> is
  \<^verbatim>\<open>pd.to_timedelta('1us')\<close> in microseconds.
\<close>

definition whole_microseconds :: "timedelta \<Rightarrow> microseconds" where
  "whole_microseconds d = d div 1000"

definition one_us :: microseconds where
  "one_us = 1"

text \<open>
  \<^verbatim>\<open>timedelta // Timedelta\<close> is \<^verbatim>\<open>Timedelta.__rfloordiv__\<close>: the left operand is converted
  to a \<^verbatim>\<open>Timedelta\<close>, which raises when its nanoseconds do not fit the 64 bits, and the two
  numbers of nanoseconds are divided. \<^verbatim>\<open>int * Timedelta\<close> multiplies the nanoseconds and
  raises when the product does not fit.
\<close>

definition timedelta_floordiv :: "microseconds \<Rightarrow> timedelta \<Rightarrow> error + int" where
  "timedelta_floordiv us i =
     (if \<bar>us * 1000\<bar> \<le> timedelta_bound then
        (if i = 0 then Inl (ZeroDivisionError ''integer division or modulo by zero'')
         else Inr ((us * 1000) div i))
      else Inl (OutOfBoundsTimedelta ''Cannot cast to unit ns without overflow''))"

definition timedelta_mul :: "int \<Rightarrow> timedelta \<Rightarrow> error + timedelta" where
  "timedelta_mul n i =
     (if \<bar>n * i\<bar> \<le> timedelta_bound then Inr (n * i)
      else Inl (OutOfBoundsTimedelta ''Cannot cast to unit ns without overflow''))"

section \<open>JobController.adjust_to_schedule\<close>

definition adjust_to_schedule ::
  "env \<Rightarrow> timestamp \<Rightarrow> int option \<Rightarrow> int option \<Rightarrow> string \<Rightarrow> error + timestamp" where
  "adjust_to_schedule E execute_date start_hours start_min interval =
     (if start_hours = None \<and> start_min = None then Inr execute_date
      else
        let start_hours' = (case start_hours of None \<Rightarrow> 0 | Some h \<Rightarrow> h);
            start_min' = (case start_min of None \<Rightarrow> 0 | Some m \<Rightarrow> m);
            execute_day = utc_today E
        in case timedelta_hours start_hours' of
             Inl e \<Rightarrow> Inl e
           | Inr hours \<Rightarrow>
        (case datetime_add execute_day hours of
             Inl e \<Rightarrow> Inl e
           | Inr at_hour \<Rightarrow>
        (case timedelta_minutes start_min' of
             Inl e \<Rightarrow> Inl e
           | Inr minutes \<Rightarrow>
        (case datetime_add at_hour minutes of
             Inl e \<Rightarrow> Inl e
           | Inr scheduled \<Rightarrow>
        (case (if scheduled > execute_date then datetime_sub scheduled one_day
               else Inr scheduled) of
             Inl e \<Rightarrow> Inl e
           | Inr scheduled' \<Rightarrow>
        (case parse_timedelta E interval of
             Inl e \<Rightarrow> Inl e
           | Inr i \<Rightarrow>
        (case timedelta_floordiv (execute_date - scheduled') i of
             Inl e \<Rightarrow> Inl e
           | Inr periods \<Rightarrow>
        (case timedelta_mul periods i of
             Inl e \<Rightarrow> Inl e
           | Inr d \<Rightarrow> datetime_add scheduled' (whole_microseconds d)))))))))"

text \<open>
  The anchor that \<^verbatim>\<open>adjust_to_schedule\<close> rounds from: today's date at the start hour and
  minute, moved back one day when it lies after the execution date.
\<close>

definition todays_start :: "env \<Rightarrow> int option \<Rightarrow> int option \<Rightarrow> error + timestamp" where
  "todays_start E rh rm =
     (case timedelta_hours (case rh of None \<Rightarrow> 0 | Some h \<Rightarrow> h) of
        Inl e \<Rightarrow> Inl e
      | Inr hours \<Rightarrow>
     (case datetime_add (utc_today E) hours of
        Inl e \<Rightarrow> Inl e
      | Inr at_hour \<Rightarrow>
     (case timedelta_minutes (case rm of None \<Rightarrow> 0 | Some m \<Rightarrow> m) of
        Inl e \<Rightarrow> Inl e
      | Inr minutes \<Rightarrow> datetime_add at_hour minutes)))"

definition schedule_anchor ::
  "env \<Rightarrow> timestamp \<Rightarrow> int option \<Rightarrow> int option \<Rightarrow> error + timestamp" where
  "schedule_anchor E t rh rm =
     (case todays_start E rh rm of
        Inl e \<Rightarrow> Inl e
      | Inr scheduled \<Rightarrow>
          if scheduled > t then datetime_sub scheduled one_day else Inr scheduled)"

text \<open>The rounding of \<open>t\<close> from the anchor \<open>s\<close> by the interval \<open>i\<close>.\<close>

definition round_from :: "timestamp \<Rightarrow> timestamp \<Rightarrow> timedelta \<Rightarrow> error + timestamp" where
  "round_from s t i =
     (case timedelta_floordiv (t - s) i of
        Inl e \<Rightarrow> Inl e
      | Inr periods \<Rightarrow>
     (case timedelta_mul periods i of
        Inl e \<Rightarrow> Inl e
      | Inr d \<Rightarrow> datetime_add s (whole_microseconds d)))"

text \<open>
  The dates between the epoch and the year 2100, and the durations of at most \<open>10\<^sup>1\<^sup>8\<close>
  nanoseconds, about 31 years: with them no operation of the job controller leaves the
  range of \<^verbatim>\<open>datetime\<close> or of \<^verbatim>\<open>Timedelta\<close>.
\<close>

definition recent :: "timestamp \<Rightarrow> bool" where
  "recent t \<longleftrightarrow> 0 \<le> t \<and> t \<le> 4102444800000000"

definition moderate :: "timedelta \<Rightarrow> bool" where
  "moderate d \<longleftrightarrow> \<bar>d\<bar> \<le> 1000000000000000000"

section \<open>JobLog\<close>

text \<open>
  The job log is a database table; \<^verbatim>\<open>get_last_execution_date\<close> selects
  \<^verbatim>\<open>max(last_update)\<close> over the rows of one payload class, object name and schedule, and
  returns \<^verbatim>\<open>None\<close> when no row matches.
\<close>

record job_log_record =
  object_type :: string
  object_name :: string
  log_schedule :: string
  last_update :: timestamp
  trace :: "string option"

definition get_last_execution_date ::
  "string \<Rightarrow> job_log_record list \<Rightarrow> string \<Rightarrow> string \<Rightarrow> timestamp option" where
  "get_last_execution_date payload_class table name schedule =
     (case [last_update r. r \<leftarrow> table,
              object_type r = payload_class \<and> object_name r = name \<and> log_schedule r = schedule] of
        [] \<Rightarrow> None
      | x # xs \<Rightarrow> Some (fold max xs x))"

section \<open>Payload and job controller\<close>

text \<open>
  A schedule is the tuple \<^verbatim>\<open>(freq, start_hour, start_min, backtrack)\<close>. The payload's optional
  attributes and methods are options: \<open>None\<close> is an attribute the payload does not have, for
  which \<^verbatim>\<open>get_payload_param\<close> and \<^verbatim>\<open>exec_payload_method\<close> return their default.
\<close>

type_synonym schedule = "string \<times> int option \<times> int option \<times> string option"

record payload =
  payload_class :: string
  is_schedule_progressive :: "bool option"
  chunk_size :: "string option"
  get_early_timestamp :: "timestamp option"
  get_adjusted_start_date :: "(timestamp \<Rightarrow> timestamp) option"

record job_controller =
  jc_payload :: payload
  jc_name :: string
  jc_schedules :: "schedule list"
  jc_job_log :: "job_log_record list"

definition default_schedule :: schedule where
  "default_schedule = (''5min'', None, None, None)"

definition default_chunk_size :: string where
  "default_chunk_size = ''7d''"

definition default_is_schedule_progressive :: bool where
  "default_is_schedule_progressive = True"

definition get_payload_param :: "'a option \<Rightarrow> 'a \<Rightarrow> 'a" where
  "get_payload_param attr dflt = (case attr of None \<Rightarrow> dflt | Some v \<Rightarrow> v)"

definition job_last_execution_date :: "job_controller \<Rightarrow> string \<Rightarrow> timestamp option" where
  "job_last_execution_date jc schedule =
     get_last_execution_date (payload_class (jc_payload jc)) (jc_job_log jc) (jc_name jc) schedule"

section \<open>JobController.build_schedules_list\<close>

text \<open>
  The schedules dictionary maps a frequency string to
  \<^verbatim>\<open>(start_hour, start_min, backtrack_days)\<close>; it is an association list in insertion order.
  \<^verbatim>\<open>sort_dict\<close> is keyed by the parsed duration, so of two frequencies with the same
  duration the later one stays.
\<close>

fun build_sort_dict ::
  "env \<Rightarrow> string list \<Rightarrow> (timedelta \<times> string) list \<Rightarrow> error + (timedelta \<times> string) list" where
  "build_sort_dict E [] sort_dict = Inr sort_dict"
| "build_sort_dict E (f # fs) sort_dict =
     (case parse_timedelta E f of
        Inl e \<Rightarrow> Inl e
      | Inr d \<Rightarrow> build_sort_dict E fs (AList.update d f sort_dict))"

fun assemble_schedules ::
  "(timedelta \<times> string) list \<Rightarrow> (string \<times> int option \<times> int option \<times> string option) list
     \<Rightarrow> timedelta list \<Rightarrow> error + schedule list" where
  "assemble_schedules sort_dict schedules_dict [] = Inr []"
| "assemble_schedules sort_dict schedules_dict (duration # ds) =
     (case map_of sort_dict duration of
        None \<Rightarrow> Inl (KeyError ''duration'')
      | Some freq \<Rightarrow>
          (case map_of schedules_dict freq of
             None \<Rightarrow> Inl (KeyError freq)
           | Some (start_hour, start_min, backtrack_days) \<Rightarrow>
               (case assemble_schedules sort_dict schedules_dict ds of
                  Inl e \<Rightarrow> Inl e
                | Inr rest \<Rightarrow> Inr ((freq, start_hour, start_min, backtrack_days) # rest))))"

definition build_schedules_list ::
  "env \<Rightarrow> schedule \<Rightarrow> (string \<times> int option \<times> int option \<times> string option) list
     \<Rightarrow> error + schedule list" where
  "build_schedules_list E dflt schedules_dict =
     (let schedules_dict' =
            (if fst dflt \<notin> fst ` set schedules_dict
             then AList.update (fst dflt) (snd dflt) schedules_dict
             else schedules_dict);
          freq_list = map fst schedules_dict'
      in case build_sort_dict E freq_list [] of
           Inl e \<Rightarrow> Inl e
         | Inr sort_dict \<Rightarrow>
             assemble_schedules sort_dict schedules_dict' (sort (map fst sort_dict)))"

section \<open>JobController.evaluate_schedules\<close>

text \<open>
  The metadata dictionary of one schedule. \<open>rounded_start\<close> holds the two dates of the
  message \<^verbatim>\<open>'Start date revised to %s from %s due to rounding. '\<close>, \<open>None\<close> for the empty
  string. A schedule that is not due has no \<^verbatim>\<open>start_date\<close> key; the record has \<open>None\<close>
  there.
\<close>

record schedule_meta =
  next_date :: timestamp
  is_subsumed :: bool
  prev_checkpoint :: "timestamp option"
  is_checkpoint_driven :: bool
  round_hour :: "int option"
  round_min :: "int option"
  rounded_start :: "(timestamp \<times> timestamp) option"
  is_due :: bool
  start_date :: "timestamp option"
  backtrack :: "string option"
  mark_complete :: "string list"

definition get_next_execution_date ::
  "job_controller \<Rightarrow> env \<Rightarrow> string \<Rightarrow> timestamp \<Rightarrow> error + timestamp" where
  "get_next_execution_date jc E schedule current_execution_date =
     (case job_last_execution_date jc schedule of
        None \<Rightarrow> Inr current_execution_date
      | Some last_execution_date \<Rightarrow>
          (case parse_timedelta E schedule of
             Inl e \<Rightarrow> Inl e
           | Inr d \<Rightarrow> datetime_add last_execution_date (whole_microseconds d)))"

text \<open>The body of the loop over \<^verbatim>\<open>self._schedules\<close>: the metadata of one schedule.\<close>

definition evaluate_schedule ::
  "job_controller \<Rightarrow> env \<Rightarrow> timestamp \<Rightarrow> schedule \<Rightarrow> error + schedule_meta" where
  "evaluate_schedule jc E execute_date sched =
     (case sched of (s, rh, rm, bt) \<Rightarrow>
      (case get_next_execution_date jc E s execute_date of
         Inl e \<Rightarrow> Inl e
       | Inr nd \<Rightarrow>
      (case adjust_to_schedule E nd rh rm s of
         Inl e \<Rightarrow> Inl e
       | Inr rounded \<Rightarrow>
           let meta = \<lparr> next_date = (if rounded \<noteq> nd then rounded else nd),
                        is_subsumed = False,
                        prev_checkpoint = None,
                        is_checkpoint_driven = False,
                        round_hour = rh,
                        round_min = rm,
                        rounded_start = (if rounded \<noteq> nd then Some (rounded, nd) else None),
                        is_due = False,
                        start_date = None,
                        backtrack = None,
                        mark_complete = [] \<rparr>
           in if next_date meta \<le> execute_date then
                (if bt = Some ''checkpoint'' then
                   let pc = job_last_execution_date jc s
                   in case pc of
                        None \<Rightarrow>
                          Inr (meta \<lparr> is_due := True,
                                      is_checkpoint_driven := True,
                                      prev_checkpoint := None,
                                      start_date := None,
                                      backtrack := None,
                                      mark_complete := [s] \<rparr>)
                      | Some c \<Rightarrow>
                          (case datetime_add c one_us of
                             Inl e \<Rightarrow> Inl e
                           | Inr sd \<Rightarrow>
                               Inr (meta \<lparr> is_due := True,
                                           is_checkpoint_driven := True,
                                           prev_checkpoint := Some c,
                                           start_date := Some sd,
                                           backtrack := None,
                                           mark_complete := [s] \<rparr>))
                 else
                   (case bt of
                      None \<Rightarrow> Inr (meta \<lparr> is_due := True, mark_complete := [s] \<rparr>)
                    | Some b \<Rightarrow>
                        (case parse_timedelta E b of
                           Inl e \<Rightarrow> Inl e
                         | Inr d \<Rightarrow>
                             (case datetime_sub execute_date (whole_microseconds d) of
                                Inl e \<Rightarrow> Inl e
                              | Inr sd \<Rightarrow>
                                  Inr (meta \<lparr> is_due := True,
                                              start_date := Some sd,
                                              backtrack := Some b,
                                              mark_complete := [s] \<rparr>)))))
              else Inr meta)))"

text \<open>
  The loop, with its three variables: the ordered dictionary \<^verbatim>\<open>schedule\<close>,
  \<^verbatim>\<open>last_schedule_due\<close> and \<^verbatim>\<open>all_due\<close>.
\<close>

fun evaluate_loop ::
  "job_controller \<Rightarrow> env \<Rightarrow> timestamp \<Rightarrow> schedule list
     \<Rightarrow> (string \<times> schedule_meta) list \<times> string option \<times> string list
     \<Rightarrow> error + ((string \<times> schedule_meta) list \<times> string option \<times> string list)" where
  "evaluate_loop jc E execute_date [] st = Inr st"
| "evaluate_loop jc E execute_date (x # xs) (schedule, last_schedule_due, all_due) =
     (case evaluate_schedule jc E execute_date x of
        Inl e \<Rightarrow> Inl e
      | Inr meta \<Rightarrow>
          evaluate_loop jc E execute_date xs
            (AList.update (fst x) meta schedule,
             (if is_due meta then Some (fst x) else last_schedule_due),
             (if is_due meta then all_due @ [fst x] else all_due)))"

definition subsume :: "string \<Rightarrow> string list \<Rightarrow> string \<times> schedule_meta \<Rightarrow> string \<times> schedule_meta" where
  "subsume last_schedule_due all_due entry =
     (case entry of (s, meta) \<Rightarrow>
        if s = last_schedule_due then (s, meta \<lparr> mark_complete := all_due \<rparr>)
        else if is_due meta then (s, meta \<lparr> is_due := False, is_subsumed := True \<rparr>)
        else (s, meta))"

definition evaluate_schedules ::
  "job_controller \<Rightarrow> env \<Rightarrow> timestamp \<Rightarrow> error + (string \<times> schedule_meta) list" where
  "evaluate_schedules jc E execute_date =
     (case evaluate_loop jc E execute_date (jc_schedules jc) ([], None, []) of
        Inl e \<Rightarrow> Inl e
      | Inr (schedule, last_schedule_due, all_due) \<Rightarrow>
          (case last_schedule_due of
             None \<Rightarrow> Inr schedule
           | Some l \<Rightarrow>
               if get_payload_param (is_schedule_progressive (jc_payload jc))
                    default_is_schedule_progressive
               then Inr (map (subsume l all_due) schedule)
               else Inr schedule))"

text \<open>
  A schedule is due at the evaluation time when the loop sets its \<^verbatim>\<open>is_due\<close> flag, before
  progressive subsumption rewrites the flags.
\<close>

definition schedule_is_due :: "job_controller \<Rightarrow> env \<Rightarrow> timestamp \<Rightarrow> schedule \<Rightarrow> bool" where
  "schedule_is_due jc E execute_date x =
     (case evaluate_schedule jc E execute_date x of Inl e \<Rightarrow> False | Inr meta \<Rightarrow> is_due meta)"

section \<open>JobController.get_chunks\<close>

text \<open>
  A chunk is the pair \<^verbatim>\<open>(chunk_start, chunk_end)\<close>; the start is \<open>None\<close> in the single chunk
  that is returned when neither a start date nor an early timestamp is known.
  \<^verbatim>\<open>exec_payload_method\<close> calls a method of the payload and returns the default when the
  payload does not have it.
\<close>

type_synonym chunk = "timestamp option \<times> timestamp"

definition exec_payload_method :: "('a \<Rightarrow> 'b) option \<Rightarrow> 'b \<Rightarrow> 'a \<Rightarrow> 'b" where
  "exec_payload_method method default_output arg =
     (case method of None \<Rightarrow> default_output | Some f \<Rightarrow> f arg)"

text \<open>
  The \<^verbatim>\<open>while chunk_end < end_date\<close> loop. With a payload method that moves the start back
  it need not end: the loop is a partial function, and \<open>None\<close> is the run that never returns.
  The two additions raise \<^verbatim>\<open>OverflowError\<close> when they leave the range of \<^verbatim>\<open>datetime\<close>; the
  second one is computed before \<^verbatim>\<open>min\<close> is taken.
\<close>

partial_function (option) chunk_loop ::
  "(timestamp \<Rightarrow> timestamp) option \<Rightarrow> timedelta \<Rightarrow> timestamp \<Rightarrow> timestamp \<Rightarrow> chunk list
     \<Rightarrow> (error + chunk list) option" where
  "chunk_loop adjust csize end_date chunk_end chunks =
     (if chunk_end < end_date
      then (case datetime_add chunk_end one_us of
              Inl e \<Rightarrow> Some (Inl e)
            | Inr next_start \<Rightarrow>
                let chunk_start = exec_payload_method adjust next_start next_start
                in (case datetime_add chunk_start (whole_microseconds csize) of
                      Inl e \<Rightarrow> Some (Inl e)
                    | Inr next_end \<Rightarrow>
                        let chunk_end' = min next_end end_date
                        in chunk_loop adjust csize end_date chunk_end'
                             (chunks @ [(Some chunk_start, chunk_end')])))
      else Some (Inr chunks))"

definition get_chunks ::
  "job_controller \<Rightarrow> env \<Rightarrow> timestamp option \<Rightarrow> timestamp \<Rightarrow> int option \<Rightarrow> int option \<Rightarrow> string
     \<Rightarrow> (error + chunk list) option" where
  "get_chunks jc E start_dt end_date rh rm schedule =
     (let size_str = get_payload_param (chunk_size (jc_payload jc)) default_chunk_size;
          first_start = (case start_dt of
                           None \<Rightarrow> get_early_timestamp (jc_payload jc)
                         | Some d \<Rightarrow> Some d)
      in case first_start of
           None \<Rightarrow> Some (Inr [(None, end_date)])
         | Some sd \<Rightarrow>
             (case adjust_to_schedule E sd rh rm schedule of
                Inl e \<Rightarrow> Some (Inl e)
              | Inr adjusted \<Rightarrow>
                  let chunk_start = exec_payload_method
                                      (get_adjusted_start_date (jc_payload jc)) adjusted adjusted
                  in case parse_timedelta E size_str of
                       Inl e \<Rightarrow> Some (Inl e)
                     | Inr csize \<Rightarrow>
                         (case datetime_add chunk_start (whole_microseconds csize) of
                            Inl e \<Rightarrow> Some (Inl e)
                          | Inr first_end \<Rightarrow>
                              let chunk_end = min first_end end_date
                              in chunk_loop (get_adjusted_start_date (jc_payload jc)) csize
                                   end_date chunk_end [(Some chunk_start, chunk_end)])))"

text \<open>
  The shape of a chunk list that starts at \<open>c\<close>, for a chunk size of \<open>us\<close> microseconds: each
  chunk ends at the minimum of its start plus the chunk size and the end date, the next chunk
  starts one microsecond later, and the last chunk ends at the end date.
\<close>

fun chunk_chain :: "microseconds \<Rightarrow> timestamp \<Rightarrow> timestamp \<Rightarrow> chunk list \<Rightarrow> bool" where
  "chunk_chain us end_date c [] = False"
| "chunk_chain us end_date c [(s, e)] =
     (s = Some c \<and> e = min (c + us) end_date \<and> e = end_date)"
| "chunk_chain us end_date c ((s, e) # x # xs) =
     (s = Some c \<and> e = min (c + us) end_date \<and> e < end_date
        \<and> chunk_chain us end_date (e + one_us) (x # xs))"

section \<open>Python values and frames\<close>

text \<open>
  The scalar values a frame cell or a metadata entry can hold. \<open>PNone\<close> is \<^verbatim>\<open>None\<close>,
  \<open>PNaT\<close> the null timestamp, \<open>PFloat NaN\<close> the float \<^verbatim>\<open>nan\<close>. A finite float is a real
  number: the rounding of float arithmetic is not modelled, only whether a value is finite.
\<close>

datatype pyfloat = Finite real | PosInf | NegInf | NaN

datatype pyval =
    PNone
  | PBool bool
  | PInt int
  | PFloat pyfloat
  | PStr string
  | PTimestamp timestamp
  | PNaT

text \<open>\<^verbatim>\<open>pd.isna\<close>, \<^verbatim>\<open>np.isfinite\<close> and the truth value \<^verbatim>\<open>bool(v)\<close> of a scalar.\<close>

fun pd_isna :: "pyval \<Rightarrow> bool" where
  "pd_isna PNone = True"
| "pd_isna PNaT = True"
| "pd_isna (PFloat NaN) = True"
| "pd_isna v = False"

fun np_isfinite :: "pyfloat \<Rightarrow> bool" where
  "np_isfinite (Finite x) = True"
| "np_isfinite f = False"

fun py_bool :: "pyval \<Rightarrow> bool" where
  "py_bool PNone = False"
| "py_bool (PBool b) = b"
| "py_bool (PInt i) = (i \<noteq> 0)"
| "py_bool (PFloat (Finite x)) = (x \<noteq> 0)"
| "py_bool (PFloat f) = True"
| "py_bool (PStr s) = (s \<noteq> [])"
| "py_bool (PTimestamp t) = True"
| "py_bool PNaT = True"

text \<open>
  What the Python runtime does with a string is outside the repository: \<^verbatim>\<open>float(s)\<close> parses
  a string (\<open>None\<close> where it raises \<^verbatim>\<open>ValueError\<close>) and \<^verbatim>\<open>str(v)\<close> prints a value.
\<close>

record runtime =
  float_of_str :: "string \<Rightarrow> pyfloat option"
  str_of :: "pyval \<Rightarrow> string"

fun py_float :: "runtime \<Rightarrow> pyval \<Rightarrow> error + pyfloat" where
  "py_float R (PFloat f) = Inr f"
| "py_float R (PInt i) = Inr (Finite (of_int i))"
| "py_float R (PBool b) = Inr (Finite (if b then 1 else 0))"
| "py_float R (PStr s) =
     (case float_of_str R s of
        None \<Rightarrow> Inl (ValueError ''could not convert string to float'')
      | Some f \<Rightarrow> Inr f)"
| "py_float R v = Inl (TypeError ''float() argument must be a string or a number'')"

fun py_str :: "runtime \<Rightarrow> pyval \<Rightarrow> string" where
  "py_str R (PStr s) = s"
| "py_str R v = str_of R v"

text \<open>
  A frame has index level names (\<^verbatim>\<open>df.index.names\<close>), one index tuple per row, and its
  columns in order, each with one cell per row.
\<close>

record frame =
  index_names :: "string option list"
  index :: "pyval list list"
  cols :: "(string \<times> pyval list) list"

definition columns :: "frame \<Rightarrow> string list" where
  "columns df = map fst (cols df)"

section \<open>Db2DataWriter\<close>

definition DATA_ITEM_TYPE_BOOLEAN :: string where "DATA_ITEM_TYPE_BOOLEAN = ''BOOLEAN''"

definition DATA_ITEM_TYPE_NUMBER :: string where "DATA_ITEM_TYPE_NUMBER = ''NUMBER''"

definition DATA_ITEM_TYPE_LITERAL :: string where "DATA_ITEM_TYPE_LITERAL = ''LITERAL''"

definition DATA_ITEM_TYPE_TIMESTAMP :: string where "DATA_ITEM_TYPE_TIMESTAMP = ''TIMESTAMP''"

definition DATA_ITEM_COLUMN_TYPE_KEY :: string where "DATA_ITEM_COLUMN_TYPE_KEY = ''columnType''"

definition DATA_ITEM_TRANSIENT_KEY :: string where "DATA_ITEM_TRANSIENT_KEY = ''transient''"

definition DATA_ITEM_SOURCETABLE_KEY :: string where "DATA_ITEM_SOURCETABLE_KEY = ''sourceTableName''"

text \<open>
  The metadata of a data item is a dictionary; \<^verbatim>\<open>d.get(k)\<close> is \<^verbatim>\<open>None\<close> for a missing key
  and for a key stored with \<^verbatim>\<open>None\<close>.
\<close>

definition dict_get :: "(string \<rightharpoonup> pyval) \<Rightarrow> string \<Rightarrow> pyval" where
  "dict_get d k = (case d k of None \<Rightarrow> PNone | Some v \<Rightarrow> v)"

text \<open>
  One pass of the loop of \<^verbatim>\<open>_get_active_cols_properties\<close> over the frame's columns;
  \<^verbatim>\<open>col_props\<close> maps a column name to \<^verbatim>\<open>(data_item_type, table_name)\<close>.
\<close>

definition active_col_step ::
  "(string \<rightharpoonup> (string \<rightharpoonup> pyval)) \<Rightarrow> string \<Rightarrow> (string \<times> pyval \<times> pyval) list
     \<Rightarrow> (string \<times> pyval \<times> pyval) list" where
  "active_col_step data_item_metadata col_name col_props =
     (case data_item_metadata col_name of
        None \<Rightarrow> col_props
      | Some metadata \<Rightarrow>
          if dict_get metadata DATA_ITEM_TRANSIENT_KEY = PBool False then
            let table_name = dict_get metadata DATA_ITEM_SOURCETABLE_KEY;
                data_item_type = dict_get metadata DATA_ITEM_COLUMN_TYPE_KEY
            in if table_name = PNone then col_props
               else if data_item_type = PNone then col_props
               else
                 let data_item_type' =
                       (if data_item_type \<noteq> PStr DATA_ITEM_TYPE_BOOLEAN \<and>
                           data_item_type \<noteq> PStr DATA_ITEM_TYPE_NUMBER \<and>
                           data_item_type \<noteq> PStr DATA_ITEM_TYPE_LITERAL \<and>
                           data_item_type \<noteq> PStr DATA_ITEM_TYPE_TIMESTAMP
                        then PStr DATA_ITEM_TYPE_LITERAL
                        else data_item_type)
                 in AList.update col_name (data_item_type', table_name) col_props
          else col_props)"

definition get_active_cols_properties ::
  "(string \<rightharpoonup> (string \<rightharpoonup> pyval)) \<Rightarrow> frame \<Rightarrow> (string \<times> pyval \<times> pyval) list" where
  "get_active_cols_properties data_item_metadata df =
     fold (active_col_step data_item_metadata) (columns df) []"

text \<open>
  A column is selected when its metadata is present, \<^verbatim>\<open>transient\<close> is the boolean false, and
  neither the table name nor the column type is missing.
\<close>

definition col_selected :: "(string \<rightharpoonup> (string \<rightharpoonup> pyval)) \<Rightarrow> string \<Rightarrow> bool" where
  "col_selected data_item_metadata c =
     (case data_item_metadata c of
        None \<Rightarrow> False
      | Some metadata \<Rightarrow>
          dict_get metadata DATA_ITEM_TRANSIENT_KEY = PBool False \<and>
          dict_get metadata DATA_ITEM_SOURCETABLE_KEY \<noteq> PNone \<and>
          dict_get metadata DATA_ITEM_COLUMN_TYPE_KEY \<noteq> PNone)"

definition known_types :: "pyval set" where
  "known_types = {PStr DATA_ITEM_TYPE_BOOLEAN, PStr DATA_ITEM_TYPE_NUMBER,
                  PStr DATA_ITEM_TYPE_LITERAL, PStr DATA_ITEM_TYPE_TIMESTAMP}"

text \<open>
  A row of the insert statement: the key, the dimension values taken from the frame's row
  index, and the four typed value columns.
\<close>

record insert_row =
  KEY :: string
  dimensions :: "pyval list"
  VALUE_B :: "int option"
  VALUE_N :: "real option"
  VALUE_S :: "string option"
  VALUE_T :: "pyval option"

definition MAX_NUMBER_OF_ROWS_FOR_SQL :: nat where
  "MAX_NUMBER_OF_ROWS_FOR_SQL = 5000"

fun index_dimensions :: "pyval list \<Rightarrow> nat list \<Rightarrow> error + pyval list" where
  "index_dimensions ix [] = Inr []"
| "index_dimensions ix (position # ps) =
     (if position < length ix
      then (case index_dimensions ix ps of
              Inl e \<Rightarrow> Inl e
            | Inr rest \<Rightarrow> Inr (ix ! position # rest))
      else Inl (IndexError ''tuple index out of range''))"

text \<open>
  The \<^verbatim>\<open>VALUE_N\<close> entry: \<^verbatim>\<open>float(derived_value)\<close>, which can raise, kept when
  \<^verbatim>\<open>np.isfinite\<close> holds.
\<close>

definition number_slot :: "runtime \<Rightarrow> pyval \<Rightarrow> pyval \<Rightarrow> error + real option" where
  "number_slot R item_type derived_value =
     (if item_type = PStr DATA_ITEM_TYPE_NUMBER
      then (case py_float R derived_value of
              Inl e \<Rightarrow> Inl e
            | Inr myFloat \<Rightarrow> Inr (case myFloat of Finite x \<Rightarrow> Some x | _ \<Rightarrow> None))
      else Inr None)"

text \<open>
  The body of the inner loop of \<^verbatim>\<open>_persist_dataframe\<close> for one cell: \<open>None\<close> when the cell is
  null and the loop continues, the new row otherwise. \<^verbatim>\<open>table_props\<close> maps a table name to
  \<^verbatim>\<open>(sql_delete, sql_insert, index_pos)\<close>; \<^verbatim>\<open>index_pos\<close> is \<^verbatim>\<open>None\<close> for a single-part index.
\<close>

definition cell_row ::
  "runtime \<Rightarrow> (pyval \<times> string \<times> string \<times> nat list option) list \<Rightarrow> pyval list
     \<Rightarrow> string \<Rightarrow> pyval \<Rightarrow> pyval \<Rightarrow> pyval \<Rightarrow> error + insert_row option" where
  "cell_row R table_props ix item_name item_type table_name derived_value =
     (if pd_isna derived_value then Inr None
      else
        (case map_of table_props table_name of
           None \<Rightarrow> Inl (KeyError ''table_name'')
         | Some (sql_delete, sql_insert, index_pos) \<Rightarrow>
        (case index_pos of
           None \<Rightarrow> Inl (TypeError ''NoneType object is not iterable'')
         | Some positions \<Rightarrow>
        (case index_dimensions ix positions of
           Inl e \<Rightarrow> Inl e
         | Inr dims \<Rightarrow>
        (case number_slot R item_type derived_value of
           Inl e \<Rightarrow> Inl e
         | Inr value_n \<Rightarrow>
             Inr (Some \<lparr> KEY = item_name,
                         dimensions = dims,
                         VALUE_B = (if item_type = PStr DATA_ITEM_TYPE_BOOLEAN
                                    then Some (if py_bool derived_value then 1 else 0)
                                    else None),
                         VALUE_N = value_n,
                         VALUE_S = (if item_type = PStr DATA_ITEM_TYPE_LITERAL
                                    then Some (py_str R derived_value) else None),
                         VALUE_T = (if item_type = PStr DATA_ITEM_TYPE_TIMESTAMP
                                    then Some derived_value else None) \<rparr>))))))"

text \<open>
  The writer's state: the row list of each table, the batches handed to
  \<^verbatim>\<open>ibm_db.execute_many\<close> so far and the counter of saved rows. The driver call is a
  parameter that returns the number of rows, or \<open>None\<close> where it raises.
\<close>

record writer_state =
  row_lists :: "(pyval \<times> insert_row list) list"
  written :: "(pyval \<times> insert_row list) list"
  counter :: int

record db2_data_writer =
  col_props :: "(string \<times> pyval \<times> pyval) list"
  table_props :: "(pyval \<times> string \<times> string \<times> nat list option) list"
  insert_statements :: "(pyval \<times> string) list"
  execute_many :: "string \<Rightarrow> insert_row list \<Rightarrow> int option"

definition persist_tuples ::
  "db2_data_writer \<Rightarrow> pyval \<Rightarrow> insert_row list \<Rightarrow> writer_state \<Rightarrow> error + writer_state" where
  "persist_tuples W table_name row_list st =
     (case map_of (insert_statements W) table_name of
        None \<Rightarrow> Inl (KeyError ''table_name'')
      | Some stmt_insert \<Rightarrow>
          (case execute_many W stmt_insert row_list of
             None \<Rightarrow> Inl (DataWriterException ''Persisting data item values failed'')
           | Some saved_rows \<Rightarrow>
               Inr (st \<lparr> row_lists := AList.update table_name [] (row_lists st),
                         written := written st @ [(table_name, row_list)],
                         counter := counter st + saved_rows \<rparr>)))"

fun persist_items ::
  "runtime \<Rightarrow> db2_data_writer \<Rightarrow> pyval list \<Rightarrow> (string \<times> pyval) list
     \<Rightarrow> (string \<times> pyval \<times> pyval) list \<Rightarrow> writer_state \<Rightarrow> error + writer_state" where
  "persist_items R W ix df_row [] st = Inr st"
| "persist_items R W ix df_row ((item_name, item_type, table_name) # items) st =
     (case map_of df_row item_name of
        None \<Rightarrow> Inl (AttributeError item_name)
      | Some derived_value \<Rightarrow>
     (case cell_row R (table_props W) ix item_name item_type table_name derived_value of
        Inl e \<Rightarrow> Inl e
      | Inr None \<Rightarrow> persist_items R W ix df_row items st
      | Inr (Some row) \<Rightarrow>
     (case map_of (row_lists st) table_name of
        None \<Rightarrow> Inl (KeyError ''table_name'')
      | Some row_list \<Rightarrow>
          if length (row_list @ [row]) \<ge> MAX_NUMBER_OF_ROWS_FOR_SQL
          then (case persist_tuples W table_name (row_list @ [row]) st of
                  Inl e \<Rightarrow> Inl e
                | Inr st' \<Rightarrow> persist_items R W ix df_row items st')
          else persist_items R W ix df_row items
                 (st \<lparr> row_lists := AList.update table_name (row_list @ [row]) (row_lists st) \<rparr>))))"

text \<open>\<^verbatim>\<open>df.itertuples()\<close>: the index tuple of each row with the row's cells by column name.\<close>

definition itertuples :: "frame \<Rightarrow> (pyval list \<times> (string \<times> pyval) list) list" where
  "itertuples df =
     map (\<lambda>i. (index df ! i, map (\<lambda>(c, vs). (c, vs ! i)) (cols df))) [0..<length (index df)]"

fun persist_rows ::
  "runtime \<Rightarrow> db2_data_writer \<Rightarrow> (pyval list \<times> (string \<times> pyval) list) list
     \<Rightarrow> writer_state \<Rightarrow> error + writer_state" where
  "persist_rows R W [] st = Inr st"
| "persist_rows R W ((ix, df_row) # rows) st =
     (case persist_items R W ix df_row (col_props W) st of
        Inl e \<Rightarrow> Inl e
      | Inr st' \<Rightarrow> persist_rows R W rows st')"

fun flush_row_lists ::
  "db2_data_writer \<Rightarrow> (pyval \<times> insert_row list) list \<Rightarrow> writer_state \<Rightarrow> error + writer_state" where
  "flush_row_lists W [] st = Inr st"
| "flush_row_lists W ((table_name, row_list) # rest) st =
     (if length row_list > 0
      then (case persist_tuples W table_name row_list st of
              Inl e \<Rightarrow> Inl e
            | Inr st' \<Rightarrow> flush_row_lists W rest st')
      else flush_row_lists W rest st)"

definition persist_dataframe ::
  "runtime \<Rightarrow> db2_data_writer \<Rightarrow> frame \<Rightarrow> writer_state \<Rightarrow> error + writer_state" where
  "persist_dataframe R W df st =
     (case persist_rows R W (itertuples df) (st \<lparr> counter := 0 \<rparr>) of
        Inl e \<Rightarrow> Inl e
      | Inr st' \<Rightarrow> flush_row_lists W (row_lists st') st')"


text \<open>The rows that the loop body makes from the cells of a frame.\<close>

definition row_of_frame :: "runtime \<Rightarrow> db2_data_writer \<Rightarrow> frame \<Rightarrow> insert_row \<Rightarrow> bool" where
  "row_of_frame R W df row =
     (\<exists>ix df_row item_name item_type table_name v.
        (ix, df_row) \<in> set (itertuples df)
      \<and> (item_name, item_type, table_name) \<in> set (col_props W)
      \<and> map_of df_row item_name = Some v
      \<and> cell_row R (table_props W) ix item_name item_type table_name v = Inr (Some row))"

text \<open>A property of every row buffered or written so far.\<close>

definition rows_all :: "(insert_row \<Rightarrow> bool) \<Rightarrow> writer_state \<Rightarrow> bool" where
  "rows_all P st =
     ((\<forall>(t, rl)\<in>set (row_lists st). \<forall>row\<in>set rl. P row)
    \<and> (\<forall>(t, b)\<in>set (written st). \<forall>row\<in>set b. P row))"

section \<open>DataMerge\<close>

text \<open>
  The objects a stage can hand to the merge: a dictionary, a frame, a series, or a plain
  value, which is \<^verbatim>\<open>None\<close>, a scalar, a list or one-dimensional array, or a two-dimensional
  array given by its rows.
\<close>

record series =
  ser_index_names :: "string option list"
  ser_index :: "pyval list list"
  ser_values :: "pyval list"

datatype colval =
    NoneVal
  | Scalar pyval
  | ListLike "pyval list"
  | Table "pyval list list"

datatype merge_obj =
    ObjDict
  | ObjFrame frame
  | ObjSeries series
  | ObjValue colval

text \<open>
  The pandas operations whose result the model does not compute: the frame constructor, the
  assignment of a two-dimensional array to a column, the two joins, and moving the index to
  columns and back. Each returns an error where pandas raises.
\<close>

record pandas =
  pd_DataFrame :: "colval \<Rightarrow> string list \<Rightarrow> error + frame"
  pd_setitem_2d :: "frame \<Rightarrow> string \<Rightarrow> pyval list list \<Rightarrow> error + frame"
  pd_merge_outer :: "frame \<Rightarrow> frame \<Rightarrow> error + frame"
  pd_merge_left :: "frame \<Rightarrow> frame \<Rightarrow> string option \<Rightarrow> error + frame"
  pd_reset_index :: "frame \<Rightarrow> error + frame"
  pd_set_index :: "frame \<Rightarrow> string list \<Rightarrow> error + frame"

text \<open>\<^verbatim>\<open>pd.DataFrame()\<close>, \<^verbatim>\<open>df.empty\<close> and \<^verbatim>\<open>df.index.name\<close>.\<close>

definition empty_frame :: frame where
  "empty_frame = \<lparr> index_names = [None], index = [], cols = [] \<rparr>"

definition frame_empty :: "frame \<Rightarrow> bool" where
  "frame_empty df = (index df = [] \<or> cols df = [])"

definition index_name :: "frame \<Rightarrow> string option" where
  "index_name df = (case index_names df of [n] \<Rightarrow> n | _ \<Rightarrow> None)"

text \<open>
  \<^verbatim>\<open>df[c] = value\<close>. A scalar is repeated in every row. A list must have one value per row,
  except on a frame without rows, which takes the list's positions as its index and fills
  its other columns with \<^verbatim>\<open>NaN\<close>.
\<close>

definition setitem_scalar :: "frame \<Rightarrow> string \<Rightarrow> pyval \<Rightarrow> frame" where
  "setitem_scalar df c x = df \<lparr> cols := AList.update c (replicate (length (index df)) x) (cols df) \<rparr>"

definition setitem :: "pandas \<Rightarrow> frame \<Rightarrow> string \<Rightarrow> colval \<Rightarrow> error + frame" where
  "setitem P df c v =
     (case v of
        NoneVal \<Rightarrow> Inr (setitem_scalar df c PNone)
      | Scalar x \<Rightarrow> Inr (setitem_scalar df c x)
      | ListLike xs \<Rightarrow>
          if length xs = length (index df)
          then Inr (df \<lparr> cols := AList.update c xs (cols df) \<rparr>)
          else if index df = []
          then Inr \<lparr> index_names = [None],
                    index = map (\<lambda>i. [PInt (int i)]) [0..<length xs],
                    cols = AList.update c xs
                             (map (\<lambda>(n, ys). (n, replicate (length xs) (PFloat NaN))) (cols df)) \<rparr>
          else Inl (ValueError ''Length of values does not match length of index'')
      | Table rows \<Rightarrow> pd_setitem_2d P df c rows)"

record data_merge =
  dm_df :: frame
  constants :: "(string \<times> colval) list"

definition r_suffix :: string where
  "r_suffix = ''_new_''"

definition add_constant :: "pandas \<Rightarrow> data_merge \<Rightarrow> string \<Rightarrow> colval \<Rightarrow> error + data_merge" where
  "add_constant P dm name v =
     (case setitem P (dm_df dm) name v of
        Inl e \<Rightarrow> Inl e
      | Inr df \<Rightarrow> Inr \<lparr> dm_df = df, constants = AList.update name v (constants dm) \<rparr>)"

fun apply_constants_loop :: "pandas \<Rightarrow> (string \<times> colval) list \<Rightarrow> frame \<Rightarrow> error + frame" where
  "apply_constants_loop P [] df = Inr df"
| "apply_constants_loop P ((name, v) # rest) df =
     (case setitem P df name v of
        Inl e \<Rightarrow> Inl e
      | Inr df' \<Rightarrow> apply_constants_loop P rest df')"

definition apply_constants :: "pandas \<Rightarrow> data_merge \<Rightarrow> error + data_merge" where
  "apply_constants P dm =
     (case apply_constants_loop P (constants dm) (dm_df dm) of
        Inl e \<Rightarrow> Inl e
      | Inr df \<Rightarrow> Inr (dm \<lparr> dm_df := df \<rparr>))"

definition clear_data :: "data_merge \<Rightarrow> data_merge" where
  "clear_data dm = \<lparr> dm_df = empty_frame, constants = [] \<rparr>"

text \<open>
  \<^verbatim>\<open>coalesce_cols\<close>: for each column \<open>o\<close> that has a variant \<open>o\<close> followed by the suffix, the
  nulls of \<open>o\<close> are filled from the variant (a \<^verbatim>\<open>KeyError\<close> for a missing variant is passed
  over), and the variants are dropped at the end.
\<close>

definition fillna :: "pyval list \<Rightarrow> pyval list \<Rightarrow> pyval list" where
  "fillna xs ys = map (\<lambda>(x, y). if pd_isna x then y else x) (zip xs ys)"

fun coalesce_loop :: "string \<Rightarrow> string list \<Rightarrow> frame \<times> string list \<Rightarrow> frame \<times> string list" where
  "coalesce_loop suffix [] acc = acc"
| "coalesce_loop suffix (c # cs) (df, altered) =
     (case (map_of (cols df) c, map_of (cols df) (c @ suffix)) of
        (Some xs, Some ys) \<Rightarrow>
          coalesce_loop suffix cs
            (df \<lparr> cols := AList.update c (fillna xs ys) (cols df) \<rparr>, altered @ [c @ suffix])
      | _ \<Rightarrow> coalesce_loop suffix cs (df, altered))"

definition coalesce_cols :: "frame \<Rightarrow> string \<Rightarrow> frame" where
  "coalesce_cols df suffix =
     (case coalesce_loop suffix (columns df) (df, []) of
        (df', altered) \<Rightarrow>
          if length altered > 0
          then df' \<lparr> cols := filter (\<lambda>(x, xs). x \<notin> set altered) (cols df') \<rparr>
          else df')"

text \<open>
  \<^verbatim>\<open>convert_to_df\<close> builds a frame from a plain value and gives it the index of the merge's
  frame; assigning an index of another length raises.
\<close>

definition convert_to_df :: "pandas \<Rightarrow> colval \<Rightarrow> string list \<Rightarrow> frame \<Rightarrow> error + frame" where
  "convert_to_df P obj col_names self_df =
     (case pd_DataFrame P obj col_names of
        Inl e \<Rightarrow> Inl e
      | Inr df \<Rightarrow>
          if length (index df) \<noteq> length (index self_df)
          then Inl (ValueError ''Length mismatch'')
          else Inr (df \<lparr> index := index self_df, index_names := index_names self_df \<rparr>))"

definition get_index_names :: "frame \<Rightarrow> string list" where
  "get_index_names df =
     (let df_index_names = (if index_name df \<noteq> None then [index_name df] else index_names df)
      in List.map_filter id df_index_names)"

definition get_cols :: "frame \<Rightarrow> string set" where
  "get_cols df = set (get_index_names df) \<union> set (columns df)"

datatype merge_strategy = Skip | Replace | Slice | Outer | Lookup | NoStrategy

text \<open>
  The first part of \<^verbatim>\<open>merge_dataframe\<close>: a series is renamed to the first column name and
  becomes a one-column frame; the columns of a frame are renamed when there are as many
  column names as columns. \<^verbatim>\<open>execute\<close> always passes a list of column names.
\<close>

definition incoming_frame :: "merge_obj \<Rightarrow> string list \<Rightarrow> error + frame" where
  "incoming_frame obj col_names =
     (case obj of
        ObjSeries s \<Rightarrow>
          (case col_names of
             [] \<Rightarrow> Inl (IndexError ''list index out of range'')
           | c # cs \<Rightarrow> Inr \<lparr> index_names = ser_index_names s, index = ser_index s,
                             cols = [(c, ser_values s)] \<rparr>)
      | ObjFrame df \<Rightarrow>
          if length col_names = length (columns df)
          then Inr (df \<lparr> cols := zip col_names (map snd (cols df)) \<rparr>)
          else Inr df
      | _ \<Rightarrow> Inl (AttributeError ''columns''))"

definition choose_strategy ::
  "data_merge \<Rightarrow> frame \<Rightarrow> string list \<Rightarrow> bool \<Rightarrow> error + merge_strategy" where
  "choose_strategy dm df col_names force_overwrite =
     (let obj_index_names = get_index_names df in
      if frame_empty df then Inr Skip
      else if frame_empty (dm_df dm) then Inr Replace
      else if index df = index (dm_df dm) then
        (if set col_names \<subseteq> set (columns (dm_df dm)) \<and> \<not> force_overwrite
         then Inr Skip else Inr Slice)
      else if obj_index_names = get_index_names (dm_df dm) then Inr Outer
      else if length obj_index_names = 1 then
        (if \<not> set obj_index_names \<subseteq> set (get_index_names (dm_df dm)) \<union> set (columns (dm_df dm))
         then Inl (ValueError ''Attempting to merge a dataframe that has an invalid name in the index'')
         else Inr Lookup)
      else Inr NoStrategy)"

fun slice_loop :: "frame \<Rightarrow> (string \<times> pyval list) list \<Rightarrow> frame" where
  "slice_loop self_df [] = self_df"
| "slice_loop self_df ((c, xs) # rest) =
     slice_loop (self_df \<lparr> cols := AList.update c xs (cols self_df) \<rparr>) rest"

definition merge_dataframe ::
  "pandas \<Rightarrow> data_merge \<Rightarrow> merge_obj \<Rightarrow> string list \<Rightarrow> bool \<Rightarrow> error + data_merge" where
  "merge_dataframe P dm obj col_names force_overwrite =
     (case incoming_frame obj col_names of
        Inl e \<Rightarrow> Inl e
      | Inr df \<Rightarrow>
     (case choose_strategy dm df col_names force_overwrite of
        Inl e \<Rightarrow> Inl e
      | Inr Skip \<Rightarrow>
          let missing_cols = filter (\<lambda>x. x \<notin> set (columns (dm_df dm))) col_names
          in Inr (dm \<lparr> dm_df := fold (\<lambda>c f. setitem_scalar f c PNone) missing_cols (dm_df dm) \<rparr>)
      | Inr Replace \<Rightarrow> apply_constants P (dm \<lparr> dm_df := df \<rparr>)
      | Inr Slice \<Rightarrow> Inr (dm \<lparr> dm_df := slice_loop (dm_df dm) (cols df) \<rparr>)
      | Inr Outer \<Rightarrow>
          (case pd_merge_outer P (dm_df dm) df of
             Inl e \<Rightarrow> Inl e
           | Inr merged \<Rightarrow> apply_constants P (dm \<lparr> dm_df := coalesce_cols merged r_suffix \<rparr>))
      | Inr Lookup \<Rightarrow>
          (let df_index_names = get_index_names (dm_df dm) in
           case pd_reset_index P (dm_df dm) of
             Inl e \<Rightarrow> Inl e
           | Inr flat \<Rightarrow>
          (case pd_merge_left P flat df (index_name df) of
             Inl e \<Rightarrow> Inl e
           | Inr merged \<Rightarrow>
          (case pd_set_index P merged df_index_names of
             Inl e \<Rightarrow> Inl e
           | Inr indexed \<Rightarrow> Inr (dm \<lparr> dm_df := coalesce_cols indexed r_suffix \<rparr>))))
      | Inr NoStrategy \<Rightarrow>
          if length (get_index_names df) = 0
          then Inl (UnboundLocalError ''df_valid_names'')
          else Inl (ValueError ''Auto merge encountered a dataframe that could not be automatically merged.'')))"

definition merge_non_dataframe ::
  "pandas \<Rightarrow> data_merge \<Rightarrow> colval \<Rightarrow> string list \<Rightarrow> error + data_merge" where
  "merge_non_dataframe P dm obj col_names =
     (case col_names of
        [c] \<Rightarrow>
          if frame_empty (dm_df dm) then add_constant P dm c obj
          else
            (case setitem P (dm_df dm) c obj of
               Inl (ValueError m) \<Rightarrow>
                 Inl (ValueError ''Auto merge encounterd an object that could not be automatically merged.'')
             | Inl e \<Rightarrow> Inl e
             | Inr df \<Rightarrow> Inr (dm \<lparr> dm_df := df \<rparr>))
      | _ \<Rightarrow> Inl (ValueError ''Auto merge encountered an object that could not be automatically merged.''))"

definition merge_step ::
  "pandas \<Rightarrow> data_merge \<Rightarrow> merge_obj \<Rightarrow> string list \<Rightarrow> bool \<Rightarrow> error + data_merge" where
  "merge_step P dm obj col_names force_overwrite =
     (case obj of
        ObjDict \<Rightarrow> Inl (TypeError ''A failure occured when attempting to merge a dictionary with a dataframe.'')
      | ObjValue v \<Rightarrow>
          if length col_names > 1 \<and> v \<noteq> NoneVal
          then (case convert_to_df P v col_names (dm_df dm) of
                  Inl e \<Rightarrow> Inl e
                | Inr df \<Rightarrow> merge_dataframe P dm (ObjFrame df) col_names force_overwrite)
          else merge_non_dataframe P dm v col_names
      | _ \<Rightarrow> merge_dataframe P dm obj col_names force_overwrite)"

definition execute ::
  "pandas \<Rightarrow> data_merge \<Rightarrow> merge_obj \<Rightarrow> string list \<Rightarrow> bool \<Rightarrow> error + data_merge" where
  "execute P dm obj col_names force_overwrite =
     (case merge_step P dm obj col_names force_overwrite of
        Inl e \<Rightarrow> Inl e
      | Inr dm' \<Rightarrow>
          if \<not> frame_empty (dm_df dm') \<and> \<not> set col_names \<subseteq> get_cols (dm_df dm')
          then Inl (ValueError ''Error in auto merge. Resulting df does not contain the expected output columns'')
          else Inr dm')"

section \<open>Stages\<close>

text \<open>
  A stage, as far as the job controller inspects it. An optional attribute is an option.
  \<^verbatim>\<open>stage_execute\<close> is the call \<^verbatim>\<open>execute(df=df, start_ts=start_ts, end_ts=end_ts)\<close> and
  \<^verbatim>\<open>stage_execute_df\<close> the call \<^verbatim>\<open>execute(df=df)\<close>; a signature that does not fit raises
  \<^verbatim>\<open>TypeError\<close>. \<^verbatim>\<open>get_output_list\<close> is \<open>None\<close> when the stage has no such method or the
  method returns \<^verbatim>\<open>None\<close>. Stages are objects compared by identity; \<open>stage_id\<close> is the
  identity of the object.
\<close>

record stage =
  stage_id :: nat
  stage_name :: string
  input_set :: "string fset"
  output_list :: "string list"
  agg_function :: "string option"
  allow_empty_df :: "bool option"
  produces_output_items :: "bool option"
  discard_prior_on_merge :: "bool option"
  get_output_list :: "string list option"
  stage_execute :: "frame \<Rightarrow> timestamp option \<Rightarrow> timestamp option \<Rightarrow> error + merge_obj"
  stage_execute_df :: "frame \<Rightarrow> error + merge_obj"

definition get_stage_param :: "'a option \<Rightarrow> 'a \<Rightarrow> 'a" where
  "get_stage_param attr dflt = (case attr of None \<Rightarrow> dflt | Some v \<Rightarrow> v)"

section \<open>JobController.execute_stage and execute_stages\<close>

definition execute_stage ::
  "stage \<Rightarrow> frame \<Rightarrow> timestamp option \<Rightarrow> timestamp option \<Rightarrow> error + merge_obj" where
  "execute_stage s df start_ts end_ts =
     (case (case stage_execute s df start_ts end_ts of
              Inl (TypeError m) \<Rightarrow> stage_execute_df s df
            | r \<Rightarrow> r) of
        Inl e \<Rightarrow> Inl e
      | Inr result \<Rightarrow>
          if result = ObjValue (Scalar (PBool True)) then Inr (ObjFrame empty_frame)
          else Inr result)"

text \<open>
  The loop of \<^verbatim>\<open>execute_stages\<close>. Its state is the merge object and the names of the stages
  executed so far, which the code writes to its log (\<^verbatim>\<open>'Executed stage %s'\<close>). The result is
  the frame, \<^verbatim>\<open>can_proceed\<close> and that log.
\<close>

fun stages_loop ::
  "pandas \<Rightarrow> timestamp option \<Rightarrow> timestamp option \<Rightarrow> stage list \<Rightarrow> data_merge \<times> string list
     \<Rightarrow> error + (frame \<times> bool \<times> string list)" where
  "stages_loop P start_ts end_ts [] (merge, executed) = Inr (dm_df merge, True, executed)"
| "stages_loop P start_ts end_ts (s # rest) (merge, executed) =
     (if \<not> get_stage_param (allow_empty_df s) True \<and> frame_empty (dm_df merge)
      then Inr (dm_df merge, False, executed)
      else
        (case execute_stage s (dm_df merge) start_ts end_ts of
           Inl e \<Rightarrow> Inl e
         | Inr result \<Rightarrow>
             let new_cols = get_output_list s;
                 produces = get_stage_param (produces_output_items s) True;
                 discard_prior_data = get_stage_param (discard_prior_on_merge s) False;
                 merge' = (if discard_prior_data then clear_data merge else merge)
             in if produces then
                  (case new_cols of
                     None \<Rightarrow> Inl (AttributeError ''Stage did not provide a list of columns produced'')
                   | Some [] \<Rightarrow> Inl (AttributeError ''Stage did not provide a list of columns produced'')
                   | Some cs \<Rightarrow>
                       (case execute P merge' result cs False of
                          Inl e \<Rightarrow> Inl e
                        | Inr merge'' \<Rightarrow>
                            stages_loop P start_ts end_ts rest (merge'', executed @ [stage_name s])))
                else stages_loop P start_ts end_ts rest (merge', executed @ [stage_name s])))"

definition execute_stages ::
  "pandas \<Rightarrow> stage list \<Rightarrow> frame option \<Rightarrow> timestamp option \<Rightarrow> timestamp option
     \<Rightarrow> (string \<times> colval) list option \<Rightarrow> error + (frame \<times> bool \<times> string list)" where
  "execute_stages P stages df start_ts end_ts consts =
     stages_loop P start_ts end_ts stages
       (\<lparr> dm_df = (case df of None \<Rightarrow> empty_frame | Some d \<Rightarrow> d),
          constants = (case consts of None \<Rightarrow> [] | Some c \<Rightarrow> c) \<rparr>, [])"

section \<open>JobController.get_stages and collapse_aggregation_stages\<close>

text \<open>
  Python's \<^verbatim>\<open>fmt % arg\<close> for a format string whose only conversions are \<^verbatim>\<open>%s\<close> and an
  argument list of strings; an argument that is not a tuple is a list of one.
\<close>

fun percent_format :: "string \<Rightarrow> string list \<Rightarrow> error + string" where
  "percent_format [] [] = Inr []"
| "percent_format [] (a # as) =
     Inl (TypeError ''not all arguments converted during string formatting'')"
| "percent_format (c # fmt) args =
     (if c = CHR ''%'' \<and> (case fmt of [] \<Rightarrow> False | d # _ \<Rightarrow> d = CHR ''s'')
      then (case args of
              [] \<Rightarrow> Inl (TypeError ''not enough arguments for format string'')
            | a # as \<Rightarrow>
                (case percent_format (tl fmt) as of
                   Inl e \<Rightarrow> Inl e
                 | Inr rest \<Rightarrow> Inr (a @ rest)))
      else (case percent_format fmt args of
              Inl e \<Rightarrow> Inl e
            | Inr rest \<Rightarrow> Inr (c # rest)))"

text \<open>
  \<^verbatim>\<open>stage_metadata\<close> maps a stage type and a granularity to the stages of the payload; a
  granularity is known by its name.
\<close>

type_synonym granularity = string

type_synonym stage_metadata = "string \<times> granularity option \<rightharpoonup> stage list"

definition get_stages ::
  "stage_metadata \<Rightarrow> string \<Rightarrow> granularity option \<Rightarrow> string fset option \<Rightarrow> stage list
     \<Rightarrow> stage list \<times> string fset" where
  "get_stages stage_metadata stage_type granularity available_columns exclude_stages =
     (let stages = (case stage_metadata (stage_type, granularity) of None \<Rightarrow> [] | Some ss \<Rightarrow> ss);
          out = filter (\<lambda>s. stage_id s \<notin> set (map stage_id exclude_stages) \<and>
                    (case available_columns of
                       None \<Rightarrow> True
                     | Some av \<Rightarrow> fcard (input_set s |-| av) = 0)) stages;
          new_cols = fold (\<lambda>s acc. acc |\<union>|
                    (case available_columns of
                       None \<Rightarrow> fset_of_list (output_list s)
                     | Some av \<Rightarrow> fset_of_list (output_list s) |-| av)) out {||}
      in (out, new_cols))"

datatype agg_method = AggFunction string | StageExecute string

text \<open>
  The loop over the simple aggregators, with \<^verbatim>\<open>agg_dict\<close>, \<^verbatim>\<open>inputs\<close> and \<^verbatim>\<open>outputs\<close>. The
  argument of each \<^verbatim>\<open>ValueError\<close> is the tuple of \<^verbatim>\<open>fmt % s.name\<close> and the items, so the
  format string with its two conversions is applied to the stage name alone.
\<close>

fun simple_aggregators_loop ::
  "stage list \<Rightarrow> (string \<times> agg_method list) list \<times> string fset \<times> string list
     \<Rightarrow> error + ((string \<times> agg_method list) list \<times> string fset \<times> string list)" where
  "simple_aggregators_loop [] acc = Inr acc"
| "simple_aggregators_loop (s # rest) (agg_dict, inputs, outputs) =
     (if fcard (input_set s) \<noteq> 1 then
        (case percent_format
                ''A simple aggregator must take a single input item. %s has items: %s''
                [stage_name s] of
           Inl e \<Rightarrow> Inl e
         | Inr msg \<Rightarrow> Inl (ValueError msg))
      else if length (output_list s) \<noteq> 1 then
        (case percent_format
                ''A simple aggregator must produce a single output  %s has items: %s''
                [stage_name s] of
           Inl e \<Rightarrow> Inl e
         | Inr msg \<Rightarrow> Inl (ValueError msg))
      else
        let input_item = fthe_elem (input_set s);
            aggregation_method = (case agg_function s of
                                    None \<Rightarrow> StageExecute (stage_name s)
                                  | Some f \<Rightarrow> AggFunction f);
            agg_dict' = (case map_of agg_dict input_item of
                           Some methods \<Rightarrow>
                             AList.update input_item (methods @ [aggregation_method]) agg_dict
                         | None \<Rightarrow> AList.update input_item [aggregation_method] agg_dict)
        in simple_aggregators_loop rest
             (agg_dict', finsert input_item inputs, outputs @ [hd (output_list s)]))"

definition collapse_aggregation_stages ::
  "stage_metadata \<Rightarrow> granularity option \<Rightarrow> string fset option
     \<Rightarrow> error + ((string \<times> agg_method list) list \<times> stage list \<times> stage list
                  \<times> string fset \<times> string list)" where
  "collapse_aggregation_stages stage_metadata granularity available_columns =
     (case get_stages stage_metadata ''simple_aggregate'' granularity available_columns [] of
        (stages, simple_cols) \<Rightarrow>
     (case simple_aggregators_loop stages ([], {||}, []) of
        Inl e \<Rightarrow> Inl e
      | Inr (agg_dict, inputs, outputs) \<Rightarrow>
     (case get_stages stage_metadata ''complex_aggregate'' granularity available_columns [] of
        (complex_aggregators, complex_cols) \<Rightarrow>
          Inr (agg_dict, complex_aggregators, stages @ complex_aggregators,
               fold (\<lambda>s acc. acc |\<union>| input_set s) complex_aggregators inputs,
               fold (\<lambda>s acc. acc @ output_list s) complex_aggregators outputs))))"

text \<open>
  What the proofs below take from pandas. An outer join of two frames that are not empty is
  not empty. A frame that is not empty stays so when its index is moved to columns, it is
  left-joined with a frame that is not empty, and the index is set back. A successful
  assignment of a two-dimensional array to a column leaves that column in the frame, and on
  a frame with rows it changes neither the index nor any other column.
\<close>

definition pandas_laws :: "pandas \<Rightarrow> bool" where
  "pandas_laws P \<longleftrightarrow>
     (\<forall>l r m. \<not> frame_empty l \<and> \<not> frame_empty r \<and> pd_merge_outer P l r = Inr m
        \<longrightarrow> \<not> frame_empty m)
   \<and> (\<forall>df r k flat merged indexed.
        \<not> frame_empty df \<and> \<not> frame_empty r \<and> pd_reset_index P df = Inr flat
        \<and> pd_merge_left P flat r k = Inr merged
        \<and> pd_set_index P merged (get_index_names df) = Inr indexed
        \<longrightarrow> \<not> frame_empty indexed)
   \<and> (\<forall>df c rows df'. pd_setitem_2d P df c rows = Inr df'
        \<longrightarrow> c \<in> set (columns df')
          \<and> (index df \<noteq> [] \<longrightarrow>
                index df' = index df
              \<and> (\<forall>k. k \<noteq> c \<longrightarrow> map_of (cols df') k = map_of (cols df) k)))"

text \<open>The column that a constant fills in a frame of \<open>n\<close> rows.\<close>

fun broadcast :: "nat \<Rightarrow> colval \<Rightarrow> pyval list option" where
  "broadcast n NoneVal = Some (replicate n PNone)"
| "broadcast n (Scalar x) = Some (replicate n x)"
| "broadcast n (ListLike xs) = Some xs"
| "broadcast n (Table rows) = None"

section \<open>Concrete inputs\<close>

text \<open>
  A job with the default five-minute schedule and an hourly checkpoint schedule, last run at
  09:55 and 09:00, evaluated at 10:05 of day zero.
\<close>

definition example_env :: env where
  "example_env =
     \<lparr> to_timedelta = map_of [(''5min'', 300000000000), (''1h'', 3600000000000),
                               (''1d'', 86400000000000), (''7d'', 604800000000000),
                               (''1500ns'', 1500), (''0min'', 0), (''-1h'', - 3600000000000)],
       utc_today = 0 \<rparr>"

definition example_payload :: payload where
  "example_payload =
     \<lparr> payload_class = ''EntityType'', is_schedule_progressive = None, chunk_size = None,
       get_early_timestamp = None, get_adjusted_start_date = None \<rparr>"

definition example_job :: job_controller where
  "example_job =
     \<lparr> jc_payload = example_payload,
       jc_name = ''job'',
       jc_schedules = [(''5min'', None, None, None), (''1h'', None, None, Some ''checkpoint'')],
       jc_job_log =
         [\<lparr> object_type = ''EntityType'', object_name = ''job'', log_schedule = ''5min'',
            last_update = 35700000000, trace = None \<rparr>,
          \<lparr> object_type = ''EntityType'', object_name = ''job'', log_schedule = ''1h'',
            last_update = 32400000000, trace = None \<rparr>] \<rparr>"



definition example_metadata :: "string \<rightharpoonup> (string \<rightharpoonup> pyval)" where
  "example_metadata =
     [''temp'' \<mapsto> [''columnType'' \<mapsto> PStr ''NUMBER'', ''sourceTableName'' \<mapsto> PStr ''tableT''],
      ''alarm'' \<mapsto> [''columnType'' \<mapsto> PStr ''FLAG'', ''sourceTableName'' \<mapsto> PStr ''tableT'',
                    ''transient'' \<mapsto> PBool False]]"

definition example_frame :: frame where
  "example_frame =
     \<lparr> index_names = [Some ''id'', Some ''timestamp''],
       index = [[PStr ''A'', PTimestamp 0]],
       cols = [(''temp'', [PFloat (Finite 3.7)]), (''alarm'', [PBool True])] \<rparr>"

text \<open>
  A stand-in for pandas on frames whose indexes share no label: the outer join puts the rows
  of the right frame after the rows of the left one and fills the cells that have no source
  with \<^verbatim>\<open>NaN\<close>; the other operations raise. The merge state has one row and the constant
  \<open>k\<close>, the incoming frame brings one other row.
\<close>

definition example_pandas :: pandas where
  "example_pandas =
     \<lparr> pd_DataFrame = (\<lambda>v col_names. Inl (ValueError ''DataFrame constructor not properly called!'')),
       pd_setitem_2d = (\<lambda>df c rows. Inl (ValueError ''Wrong number of items passed'')),
       pd_merge_outer =
         (\<lambda>l r. Inr \<lparr> index_names = index_names l,
                       index = index l @ index r,
                       cols = map (\<lambda>(c, xs). (c, xs @ replicate (length (index r)) (PFloat NaN)))
                                (cols l)
                            @ map (\<lambda>(c, ys). (if c \<in> set (columns l) then c @ r_suffix else c,
                                               replicate (length (index l)) (PFloat NaN) @ ys))
                                (cols r) \<rparr>),
       pd_merge_left = (\<lambda>l r k. Inl (KeyError ''key'')),
       pd_reset_index = (\<lambda>df. Inl (ValueError ''cannot insert, already exists'')),
       pd_set_index = (\<lambda>df names. Inl (KeyError ''names'')) \<rparr>"

definition example_merge :: data_merge where
  "example_merge =
     \<lparr> dm_df = \<lparr> index_names = [Some ''id'', Some ''ts''],
                 index = [[PStr ''A'', PTimestamp 0]],
                 cols = [(''x'', [PInt 1]), (''k'', [PStr ''v''])] \<rparr>,
       constants = [(''k'', Scalar (PStr ''v''))] \<rparr>"

definition example_incoming :: frame where
  "example_incoming =
     \<lparr> index_names = [Some ''id'', Some ''ts''],
       index = [[PStr ''B'', PTimestamp 1]],
       cols = [(''y'', [PInt 2])] \<rparr>"

definition example_merged :: data_merge where
  "example_merged =
     \<lparr> dm_df = \<lparr> index_names = [Some ''id'', Some ''ts''],
                 index = [[PStr ''A'', PTimestamp 0], [PStr ''B'', PTimestamp 1]],
                 cols = [(''x'', [PInt 1, PFloat NaN]),
                         (''k'', [PStr ''v'', PStr ''v'']),
                         (''y'', [PFloat NaN, PInt 2])] \<rparr>,
       constants = [(''k'', Scalar (PStr ''v''))] \<rparr>"

text \<open>
  Stages: \<open>check\<close> returns \<^verbatim>\<open>False\<close>, \<open>load\<close> returns the scalar 1, and the simple aggregator
  \<open>mean_temp\<close> declares two input items.
\<close>

definition example_stage :: stage where
  "example_stage =
     \<lparr> stage_id = 0, stage_name = ''stage'', input_set = {||}, output_list = [], agg_function = None,
       allow_empty_df = None, produces_output_items = None, discard_prior_on_merge = None,
       get_output_list = None,
       stage_execute = (\<lambda>df start_ts end_ts. Inr (ObjFrame df)),
       stage_execute_df = (\<lambda>df. Inr (ObjFrame df)) \<rparr>"

definition example_halting_stage :: stage where
  "example_halting_stage =
     example_stage \<lparr> stage_name := ''check'', output_list := [''ok''],
                     get_output_list := Some [''ok''],
                     stage_execute := (\<lambda>df start_ts end_ts. Inr (ObjValue (Scalar (PBool False)))) \<rparr>"

definition example_next_stage :: stage where
  "example_next_stage =
     example_stage \<lparr> stage_name := ''load'', output_list := [''x''],
                     get_output_list := Some [''x''],
                     stage_execute := (\<lambda>df start_ts end_ts. Inr (ObjValue (Scalar (PInt 1)))) \<rparr>"

definition example_aggregator :: stage where
  "example_aggregator =
     example_stage \<lparr> stage_name := ''mean_temp'', input_set := {|''temp'', ''pressure''|},
                     output_list := [''mean''], agg_function := Some ''mean'' \<rparr>"

definition example_stage_metadata :: stage_metadata where
  "example_stage_metadata = [(''simple_aggregate'', Some ''daily'') \<mapsto> [example_aggregator]]"

section \<open>Rounding idempotence\<close>

lemma adjust_to_schedule_unrounded:
  "adjust_to_schedule E t None None interval = Inr t"
  by (simp add: adjust_to_schedule_def)

lemma adjust_to_schedule_rounded:
  assumes "\<not> (rh = None \<and> rm = None)"
  shows "adjust_to_schedule E t rh rm interval =
           (case schedule_anchor E t rh rm of
              Inl e \<Rightarrow> Inl e
            | Inr s \<Rightarrow>
                (case parse_timedelta E interval of
                   Inl e \<Rightarrow> Inl e
                 | Inr i \<Rightarrow> round_from s t i))"
  using assms
  by (cases rh; cases rm)
     (simp_all add: adjust_to_schedule_def schedule_anchor_def todays_start_def round_from_def
        Let_def split: sum.splits)

lemma round_from_fields:
  assumes "round_from s t i = Inr t1"
  shows "\<bar>(t - s) * 1000\<bar> \<le> timedelta_bound \<and> i \<noteq> 0
       \<and> \<bar>((t - s) * 1000) div i * i\<bar> \<le> timedelta_bound
       \<and> t1 = s + (((t - s) * 1000) div i * i) div 1000
       \<and> datetime_min \<le> t1 \<and> t1 \<le> datetime_max"
  using assms
  by (auto simp: round_from_def timedelta_floordiv_def timedelta_mul_def datetime_add_def
        whole_microseconds_def split: sum.splits if_splits)

lemma round_from_le:
  assumes "round_from s t i = Inr t1" and "0 < i"
  shows "t1 \<le> t"
proof -
  define x where "x = (t - s) * 1000"
  from round_from_fields [OF assms(1)] have t1: "t1 = s + (x div i * i) div 1000"
    by (simp add: x_def)
  have "x div i * i + x mod i = x" by (rule div_mult_mod_eq)
  moreover have "0 \<le> x mod i" using assms(2) by (rule pos_mod_sign)
  ultimately have "x div i * i \<le> x" by linarith
  then have "(x div i * i) div 1000 \<le> x div 1000" by (rule zdiv_mono1) simp
  also have "x div 1000 = t - s" by (simp add: x_def)
  finally show ?thesis using t1 by simp
qed




lemma adjust_to_schedule_le:
  assumes "adjust_to_schedule E t rh rm interval = Inr t1"
    and "to_timedelta E interval = Some i" and "0 < i"
  shows "t1 \<le> t"
proof (cases "rh = None \<and> rm = None")
  case True
  with assms(1) show ?thesis by (simp add: adjust_to_schedule_def)
next
  case False
  from assms(1) obtain s where "round_from s t i = Inr t1"
    unfolding adjust_to_schedule_rounded [OF False]
    using assms(2) by (auto simp: parse_timedelta_def split: sum.splits if_splits)
  then show ?thesis using assms(3) by (rule round_from_le)
qed


section \<open>Evaluating the concrete job\<close>

lemmas example_defs = example_env_def example_payload_def example_job_def default_schedule_def

lemmas time_defs = parse_timedelta_def py_timedelta_def timedelta_hours_def
  timedelta_minutes_def one_day_def one_us_def datetime_add_def datetime_sub_def
  datetime_min_def datetime_max_def timedelta_bound_def whole_microseconds_def
  timedelta_floordiv_def timedelta_mul_def

lemmas schedule_defs = evaluate_schedules_def evaluate_schedule_def get_next_execution_date_def
  job_last_execution_date_def get_last_execution_date_def time_defs
  adjust_to_schedule_def get_payload_param_def default_is_schedule_progressive_def subsume_def
  schedule_is_due_def build_schedules_list_def

lemma example_build:
  "build_schedules_list example_env default_schedule [(''1h'', None, None, Some ''checkpoint'')]
     = Inr (jc_schedules example_job)"
  by (simp add: example_defs schedule_defs)

lemma example_due:
  "map fst (filter (schedule_is_due example_job example_env 36300000000)
      (jc_schedules example_job)) = [''5min'', ''1h'']"
  by (simp add: example_defs schedule_defs)

lemma example_returns:
  "\<exists>result. evaluate_schedules example_job example_env 36300000000 = Inr result"
  by (simp add: example_defs schedule_defs)


text \<open>
  An execution date in the year 2264, more than 292 years after the anchor at the epoch: the
  difference does not fit a \<^verbatim>\<open>Timedelta\<close>, and \<^verbatim>\<open>adjust_to_schedule\<close> raises.
\<close>

lemma example_far_date:
  "adjust_to_schedule example_env 9300000000000000 (Some 0) None ''1h''
     = Inl (OutOfBoundsTimedelta ''Cannot cast to unit ns without overflow'')"
  by (simp add: example_defs schedule_defs)



section \<open>Schedules: the sorted list and the evaluation loop\<close>

lemma build_sort_dict_inv:
  assumes "build_sort_dict E fs sd = Inr sd'"
    and "distinct (map fst sd)"
    and "\<forall>d f. map_of sd d = Some f \<longrightarrow> to_timedelta E f = Some d"
  shows "distinct (map fst sd') \<and> (\<forall>d f. map_of sd' d = Some f \<longrightarrow> to_timedelta E f = Some d)"
  using assms
proof (induction fs arbitrary: sd)
  case Nil
  then show ?case by simp
next
  case (Cons f fs)
  from Cons.prems(1) obtain d where d: "to_timedelta E f = Some d"
    and rest: "build_sort_dict E fs (AList.update d f sd) = Inr sd'"
    by (auto simp: parse_timedelta_def split: option.splits if_splits)
  have "distinct (map fst (AList.update d f sd))"
    using Cons.prems(2) by (rule distinct_update)
  moreover have "\<forall>d' f'. map_of (AList.update d f sd) d' = Some f' \<longrightarrow> to_timedelta E f' = Some d'"
    using Cons.prems(3) d by (auto simp: update_conv')
  ultimately show ?case using Cons.IH [OF rest] by blast
qed

lemma assemble_schedules_keys:
  assumes "assemble_schedules sd dict ds = Inr scheds"
  shows "list_all2 (\<lambda>d x. map_of sd d = Some (fst x)) ds scheds"
  using assms
proof (induction ds arbitrary: scheds)
  case Nil
  then show ?case by simp
next
  case (Cons d ds)
  then show ?case
    by (auto split: option.splits sum.splits prod.splits)
qed

lemma build_schedules_list_durations:
  assumes "build_schedules_list E dflt schedules_dict = Inr scheds"
  shows "\<exists>ds. sorted ds \<and> distinct ds \<and> list_all2 (\<lambda>d x. to_timedelta E (fst x) = Some d) ds scheds"
proof -
  define dict where "dict = (if fst dflt \<notin> fst ` set schedules_dict
             then AList.update (fst dflt) (snd dflt) schedules_dict
             else schedules_dict)"
  from assms obtain sd where sd: "build_sort_dict E (map fst dict) [] = Inr sd"
    and asm: "assemble_schedules sd dict (sort (map fst sd)) = Inr scheds"
    unfolding build_schedules_list_def dict_def [symmetric] Let_def
    by (auto split: sum.splits)
  have inv: "distinct (map fst sd) \<and> (\<forall>d f. map_of sd d = Some f \<longrightarrow> to_timedelta E f = Some d)"
    using build_sort_dict_inv [OF sd] by simp
  have "list_all2 (\<lambda>d x. map_of sd d = Some (fst x)) (sort (map fst sd)) scheds"
    using asm by (rule assemble_schedules_keys)
  then have "list_all2 (\<lambda>d x. to_timedelta E (fst x) = Some d) (sort (map fst sd)) scheds"
    using inv by (auto elim!: list_all2_mono)
  moreover have "sorted (sort (map fst sd))" by simp
  moreover have "distinct (sort (map fst sd))" using inv by simp
  ultimately show ?thesis by blast
qed

lemma build_schedules_list_distinct:
  assumes "build_schedules_list E dflt schedules_dict = Inr scheds"
  shows "distinct (map fst scheds)"
proof -
  from build_schedules_list_durations [OF assms] obtain ds where
    ds: "distinct ds" "list_all2 (\<lambda>d x. to_timedelta E (fst x) = Some d) ds scheds"
    by blast
  from ds(2) have "map (\<lambda>x. to_timedelta E (fst x)) scheds = map Some ds"
    by (induction rule: list_all2_induct) auto
  then have "map (to_timedelta E) (map fst scheds) = map Some ds" by (simp add: comp_def)
  moreover have "distinct (map Some ds)" using ds(1) by (simp add: distinct_map)
  ultimately have "distinct (map (to_timedelta E) (map fst scheds))" by simp
  then show ?thesis by (auto simp: distinct_map inj_on_def)
qed

lemma update_fresh:
  "k \<notin> fst ` set al \<Longrightarrow> AList.update k v al = al @ [(k, v)]"
  by (induction al) auto

lemma evaluate_loop_result:
  assumes "evaluate_loop jc E T xs (sched, lst, due) = Inr (sched', lst', due')"
    and "distinct (map fst xs)" and "fst ` set sched \<inter> fst ` set xs = {}"
  shows "\<exists>ms. list_all2 (\<lambda>x m. evaluate_schedule jc E T x = Inr m) xs ms
      \<and> sched' = sched @ zip (map fst xs) ms
      \<and> due' = due @ map fst (filter (schedule_is_due jc E T) xs)
      \<and> lst' = (if filter (schedule_is_due jc E T) xs = [] then lst
                 else Some (fst (last (filter (schedule_is_due jc E T) xs))))"
  using assms
proof (induction xs arbitrary: sched lst due)
  case Nil
  then show ?case by simp
next
  case (Cons x xs)
  from Cons.prems(1) obtain m where m: "evaluate_schedule jc E T x = Inr m"
    and rest: "evaluate_loop jc E T xs
            (AList.update (fst x) m sched,
             (if is_due m then Some (fst x) else lst),
             (if is_due m then due @ [fst x] else due)) = Inr (sched', lst', due')"
    by (auto split: sum.splits)
  have fresh: "fst x \<notin> fst ` set sched" using Cons.prems(3) by auto
  then have upd: "AList.update (fst x) m sched = sched @ [(fst x, m)]" by (rule update_fresh)
  have d: "distinct (map fst xs)" using Cons.prems(2) by simp
  have disj: "fst ` set (AList.update (fst x) m sched) \<inter> fst ` set xs = {}"
    using Cons.prems(2,3) by (auto simp: dom_update)
  from Cons.IH [OF rest d disj] obtain ms where
    ms: "list_all2 (\<lambda>x m. evaluate_schedule jc E T x = Inr m) xs ms"
      "sched' = AList.update (fst x) m sched @ zip (map fst xs) ms"
      "due' = (if is_due m then due @ [fst x] else due) @ map fst (filter (schedule_is_due jc E T) xs)"
      "lst' = (if filter (schedule_is_due jc E T) xs = [] then (if is_due m then Some (fst x) else lst)
                 else Some (fst (last (filter (schedule_is_due jc E T) xs))))"
    by blast
  have xd: "schedule_is_due jc E T x = is_due m" using m by (simp add: schedule_is_due_def)
  have "list_all2 (\<lambda>x m. evaluate_schedule jc E T x = Inr m) (x # xs) (m # ms)"
    using m ms(1) by simp
  moreover have "sched' = sched @ zip (map fst (x # xs)) (m # ms)"
    using ms(2) upd by simp
  moreover have "due' = due @ map fst (filter (schedule_is_due jc E T) (x # xs))"
    using ms(3) xd by simp
  moreover have "lst' = (if filter (schedule_is_due jc E T) (x # xs) = [] then lst
                 else Some (fst (last (filter (schedule_is_due jc E T) (x # xs)))))"
    using ms(4) xd by simp
  ultimately show ?case by blast
qed

lemma zip_entry:
  assumes "list_all2 R xs ms" and "(s, m) \<in> set (zip (map fst xs) ms)"
  shows "\<exists>x\<in>set xs. fst x = s \<and> R x m"
  using assms by (induction rule: list_all2_induct) auto

lemma zip_lookup:
  assumes "list_all2 R xs ms" and "distinct (map fst xs)" and "x \<in> set xs"
  shows "\<exists>m. map_of (zip (map fst xs) ms) (fst x) = Some m \<and> R x m"
  using assms
proof (induction rule: list_all2_induct)
  case Nil
  then show ?case by simp
next
  case (Cons y ys m ms)
  then show ?case by (cases "x = y") (auto simp: rev_image_eqI)
qed

lemma map_of_subsume:
  "map_of (map (subsume l d) al) k = map_option (\<lambda>m. snd (subsume l d (k, m))) (map_of al k)"
  by (induction al) (auto simp: subsume_def)

lemma map_fst_subsume: "map fst (map (subsume l d) al) = map fst al"
  by (induction al) (auto simp: subsume_def)

lemma sorted_wrt_transfer:
  assumes "list_all2 R ds xs" and "sorted_wrt (<) ds"
  shows "sorted_wrt (\<lambda>x y. \<exists>dx dy. R dx x \<and> R dy y \<and> dx < dy) xs"
  using assms
proof (induction rule: list_all2_induct)
  case Nil
  then show ?case by simp
next
  case (Cons d ds x xs)
  have "\<forall>y\<in>set xs. \<exists>dy\<in>set ds. R dy y"
    using Cons.hyps(2) by (metis in_set_conv_nth list_all2_conv_all_nth)
  then show ?case using Cons by simp blast
qed

lemma sorted_wrt_last:
  assumes "sorted_wrt P ys" and "y \<in> set ys" and "y \<noteq> last ys"
  shows "P y (last ys)"
proof -
  have ne: "ys \<noteq> []" using assms(2) by auto
  then have ys: "ys = butlast ys @ [last ys]" by simp
  with assms(2,3) have "y \<in> set (butlast ys)"
    by (metis Un_iff empty_iff insert_iff list.set(1) list.set(2) set_append)
  moreover have "sorted_wrt P (butlast ys @ [last ys])" using assms(1) ys by simp
  ultimately show ?thesis by (auto simp: sorted_wrt_append)
qed

lemma evaluate_schedules_result:
  assumes "evaluate_schedules jc E T = Inr result"
    and "distinct (map fst (jc_schedules jc))"
  shows "\<exists>ms. list_all2 (\<lambda>x m. evaluate_schedule jc E T x = Inr m) (jc_schedules jc) ms
      \<and> result =
          (let sched = zip (map fst (jc_schedules jc)) ms;
               due = map fst (filter (schedule_is_due jc E T) (jc_schedules jc))
           in if due \<noteq> [] \<and> get_payload_param (is_schedule_progressive (jc_payload jc))
                    default_is_schedule_progressive
              then map (subsume (last due) due) sched else sched)"
proof -
  from assms(1) obtain sched lst due where
    loop: "evaluate_loop jc E T (jc_schedules jc) ([], None, []) = Inr (sched, lst, due)"
    and res: "result = (case lst of None \<Rightarrow> sched
         | Some l \<Rightarrow> if get_payload_param (is_schedule_progressive (jc_payload jc))
                    default_is_schedule_progressive
               then map (subsume l due) sched else sched)"
    by (auto simp: evaluate_schedules_def split: sum.splits option.splits if_splits)
  from evaluate_loop_result [OF loop assms(2)] obtain ms where
    ms: "list_all2 (\<lambda>x m. evaluate_schedule jc E T x = Inr m) (jc_schedules jc) ms"
      "sched = zip (map fst (jc_schedules jc)) ms"
      "due = map fst (filter (schedule_is_due jc E T) (jc_schedules jc))"
      "lst = (if filter (schedule_is_due jc E T) (jc_schedules jc) = [] then None
                 else Some (fst (last (filter (schedule_is_due jc E T) (jc_schedules jc)))))"
    by auto
  have "result =
          (let sched = zip (map fst (jc_schedules jc)) ms;
               due = map fst (filter (schedule_is_due jc E T) (jc_schedules jc))
           in if due \<noteq> [] \<and> get_payload_param (is_schedule_progressive (jc_payload jc))
                    default_is_schedule_progressive
              then map (subsume (last due) due) sched else sched)"
    using res ms(2,3,4) by (simp add: Let_def last_map)
  with ms(1) show ?thesis by blast
qed

lemma filter_eq_distinct:
  "distinct xs \<Longrightarrow> x \<in> set xs \<Longrightarrow> filter (\<lambda>k. k = x) xs = [x]"
  by (induction xs) (auto simp: filter_empty_conv)

lemma due_lookup:
  assumes "list_all2 (\<lambda>x m. evaluate_schedule jc E T x = Inr m) xs ms"
    and "distinct (map fst xs)"
    and "s \<in> set (map fst (filter (schedule_is_due jc E T) xs))"
  shows "\<exists>x m. x \<in> set xs \<and> fst x = s \<and> evaluate_schedule jc E T x = Inr m
            \<and> map_of (zip (map fst xs) ms) s = Some m \<and> is_due m"
proof -
  from assms(3) obtain x where x: "x \<in> set xs" "schedule_is_due jc E T x" "fst x = s"
    by auto
  from zip_lookup [OF assms(1,2) x(1)] obtain m where
    m: "map_of (zip (map fst xs) ms) (fst x) = Some m" "evaluate_schedule jc E T x = Inr m"
    by blast
  have "is_due m" using x(2) m(2) by (simp add: schedule_is_due_def)
  with x m show ?thesis by blast
qed

lemma entry_due_iff:
  assumes "list_all2 (\<lambda>x m. evaluate_schedule jc E T x = Inr m) xs ms"
    and "distinct (map fst xs)"
    and "(s, m) \<in> set (zip (map fst xs) ms)"
  shows "is_due m = (s \<in> set (map fst (filter (schedule_is_due jc E T) xs)))"
proof -
  from zip_entry [OF assms(1,3)] obtain x where
    x: "x \<in> set xs" "fst x = s" "evaluate_schedule jc E T x = Inr m" by blast
  have inj: "inj_on fst (set xs)" using assms(2) by (simp add: distinct_map)
  have "is_due m = schedule_is_due jc E T x" using x(3) by (simp add: schedule_is_due_def)
  also have "\<dots> = (s \<in> set (map fst (filter (schedule_is_due jc E T) xs)))"
  proof
    assume "schedule_is_due jc E T x"
    with x show "s \<in> set (map fst (filter (schedule_is_due jc E T) xs))" by force
  next
    assume "s \<in> set (map fst (filter (schedule_is_due jc E T) xs))"
    then obtain y where y: "y \<in> set xs" "schedule_is_due jc E T y" "fst y = s" by auto
    with x inj have "y = x" by (auto dest: inj_onD)
    with y show "schedule_is_due jc E T x" by simp
  qed
  finally show ?thesis .
qed

text \<open>
  Claim C1. Progressive subsumption: the schedule list is the one \<^verbatim>\<open>build_schedules_list\<close>
  builds, the progressive flag is true (or absent, the default), \<^verbatim>\<open>evaluate_schedules\<close>
  returns \<open>result\<close> and at least one schedule is due. Then exactly one schedule of the result
  has \<^verbatim>\<open>is_due\<close> set, the last due schedule of the list; its \<^verbatim>\<open>mark_complete\<close> is the list of
  all originally due schedules; every other originally due schedule ends with \<^verbatim>\<open>is_due\<close>
  false and \<^verbatim>\<open>is_subsumed\<close> true, and has a strictly shorter period than the last one.
\<close>

theorem progressive_subsumption:
  assumes build: "build_schedules_list E dflt schedules_dict = Inr (jc_schedules jc)"
    and prog: "get_payload_param (is_schedule_progressive (jc_payload jc))
                 default_is_schedule_progressive"
    and ret: "evaluate_schedules jc E T = Inr result"
    and due: "due = map fst (filter (schedule_is_due jc E T) (jc_schedules jc))"
    and ne: "due \<noteq> []"
  shows "map fst (filter (\<lambda>(s, m). is_due m) result) = [last due]
       \<and> (\<exists>m. map_of result (last due) = Some m \<and> is_due m \<and> mark_complete m = due)
       \<and> (\<forall>s\<in>set due. s \<noteq> last due \<longrightarrow>
             (\<exists>m. map_of result s = Some m \<and> \<not> is_due m \<and> is_subsumed m))
       \<and> (\<forall>s\<in>set due. s \<noteq> last due \<longrightarrow>
             (\<exists>d dl. to_timedelta E s = Some d \<and> to_timedelta E (last due) = Some dl \<and> d < dl))"
proof -
  define xs where "xs = jc_schedules jc"
  define L where "L = last due"
  have dist: "distinct (map fst xs)"
    using build_schedules_list_distinct [OF build] by (simp add: xs_def)
  from evaluate_schedules_result [OF ret] dist obtain ms where
    ms: "list_all2 (\<lambda>x m. evaluate_schedule jc E T x = Inr m) xs ms"
    and res: "result = map (subsume L due) (zip (map fst xs) ms)"
    using prog ne due by (auto simp: xs_def Let_def L_def)
  define sched where "sched = zip (map fst xs) ms"
  have len: "length ms = length xs" using ms by (simp add: list_all2_lengthD)
  have keys: "map fst sched = map fst xs" using len by (simp add: sched_def)
  have L_due: "L \<in> set due" using ne by (simp add: L_def)
  have due': "due = map fst (filter (schedule_is_due jc E T) xs)" using due by (simp add: xs_def)
  have L_key: "L \<in> set (map fst xs)" using L_due due' by auto
  have entry: "is_due m = (s \<in> set due)" if "(s, m) \<in> set sched" for s m
    using entry_due_iff [OF ms dist] that by (simp add: sched_def due')
  have one: "map fst (filter (\<lambda>(s, m). is_due m) result) = [L]"
  proof -
    have "filter (\<lambda>(s, m). is_due m) result
            = map (subsume L due) (filter ((\<lambda>(s, m). is_due m) \<circ> subsume L due) sched)"
      by (simp add: res sched_def filter_map)
    also have "filter ((\<lambda>(s, m). is_due m) \<circ> subsume L due) sched
                 = filter (\<lambda>e. fst e = L) sched"
    proof (rule filter_cong [OF refl])
      fix e assume e: "e \<in> set sched"
      obtain s m where sm: "e = (s, m)" by (cases e)
      show "((\<lambda>(s, m). is_due m) \<circ> subsume L due) e = (fst e = L)"
        using entry [of s m] e L_due by (auto simp: sm subsume_def)
    qed
    finally have "filter (\<lambda>(s, m). is_due m) result
                    = map (subsume L due) (filter (\<lambda>e. fst e = L) sched)" .
    then have "map fst (filter (\<lambda>(s, m). is_due m) result)
                    = map fst (filter (\<lambda>e. fst e = L) sched)"
      by (simp only: map_fst_subsume)
    also have "\<dots> = filter (\<lambda>k. k = L) (map fst sched)"
      by (simp add: filter_map comp_def)
    also have "\<dots> = [L]"
      using dist L_key by (simp add: keys filter_eq_distinct)
    finally show ?thesis .
  qed
  have lookup: "\<exists>m. map_of sched s = Some m \<and> is_due m" if "s \<in> set due" for s
    using due_lookup [OF ms dist] that by (auto simp: sched_def due')
  have two: "\<exists>m. map_of result L = Some m \<and> is_due m \<and> mark_complete m = due"
    using lookup [OF L_due]
    by (auto simp: res map_of_subsume sched_def [symmetric] subsume_def)
  have three: "\<exists>m. map_of result s = Some m \<and> \<not> is_due m \<and> is_subsumed m"
    if "s \<in> set due" "s \<noteq> L" for s
    using lookup [OF that(1)] that(2)
    by (auto simp: res map_of_subsume sched_def [symmetric] subsume_def)
  have four: "\<exists>d dl. to_timedelta E s = Some d \<and> to_timedelta E L = Some dl \<and> d < dl"
    if "s \<in> set due" "s \<noteq> L" for s
  proof -
    from build_schedules_list_durations [OF build] obtain ds where
      ds: "sorted ds" "distinct ds" "list_all2 (\<lambda>d x. to_timedelta E (fst x) = Some d) ds xs"
      by (auto simp: xs_def)
    have "sorted_wrt (<) ds" using ds(1,2) by (simp add: strict_sorted_iff)
    from sorted_wrt_transfer [OF ds(3) this]
    have "sorted_wrt (\<lambda>x y. \<exists>dx dy. to_timedelta E (fst x) = Some dx
            \<and> to_timedelta E (fst y) = Some dy \<and> dx < dy) xs" .
    then have "sorted_wrt (\<lambda>x y. \<exists>dx dy. to_timedelta E (fst x) = Some dx
            \<and> to_timedelta E (fst y) = Some dy \<and> dx < dy) (filter (schedule_is_due jc E T) xs)"
      by (rule sorted_wrt_filter)
    then have "sorted_wrt (\<lambda>x y. \<exists>dx dy. to_timedelta E x = Some dx
            \<and> to_timedelta E y = Some dy \<and> dx < dy) due"
      by (simp add: due' sorted_wrt_map)
    from sorted_wrt_last [OF this that(1)] that(2) show ?thesis by (simp add: L_def)
  qed
  from one two three four show ?thesis unfolding L_def by blast
qed

theorem progressive_subsumption_witness:
  "\<exists>result. evaluate_schedules example_job example_env 36300000000 = Inr result
     \<and> map fst (filter (\<lambda>(s, m). is_due m) result) = [''1h'']
     \<and> (\<exists>m. map_of result ''1h'' = Some m \<and> is_due m \<and> mark_complete m = [''5min'', ''1h''])
     \<and> (\<exists>m. map_of result ''5min'' = Some m \<and> \<not> is_due m \<and> is_subsumed m)
     \<and> (\<exists>d dl. to_timedelta example_env ''5min'' = Some d
             \<and> to_timedelta example_env ''1h'' = Some dl \<and> d < dl)"
proof -
  from example_returns obtain result where
    r: "evaluate_schedules example_job example_env 36300000000 = Inr result" ..
  have p: "get_payload_param (is_schedule_progressive (jc_payload example_job))
                 default_is_schedule_progressive"
    by (simp add: example_defs schedule_defs)
  have ne: "[''5min'', ''1h''] \<noteq> []" by simp
  from progressive_subsumption [OF example_build p r example_due [symmetric] ne] r
  show ?thesis by simp
qed

text \<open>
  Claim C8. Checkpoint start date: for a schedule of the list that is due and whose backtrack
  setting is the literal \<^verbatim>\<open>'checkpoint'\<close>, the returned metadata has \<^verbatim>\<open>prev_checkpoint\<close> equal
  to the job log's last execution date \<open>L\<close>, \<^verbatim>\<open>start_date\<close> equal to \<open>L\<close> plus one microsecond
  (null when the job log has no entry), and \<^verbatim>\<open>backtrack\<close> null; so the start date is
  strictly after \<open>L\<close>.
\<close>

theorem checkpoint_start_date:
  assumes build: "build_schedules_list E dflt schedules_dict = Inr (jc_schedules jc)"
    and ret: "evaluate_schedules jc E T = Inr result"
    and mem: "(s, rh, rm, Some ''checkpoint'') \<in> set (jc_schedules jc)"
    and due: "schedule_is_due jc E T (s, rh, rm, Some ''checkpoint'')"
  shows "\<exists>m. map_of result s = Some m
           \<and> prev_checkpoint m = job_last_execution_date jc s
           \<and> start_date m = (case job_last_execution_date jc s of
                               None \<Rightarrow> None | Some L \<Rightarrow> Some (L + one_us))
           \<and> backtrack m = None
           \<and> (\<forall>L. job_last_execution_date jc s = Some L \<longrightarrow>
                 (\<exists>sd. start_date m = Some sd \<and> sd = L + 1 \<and> L < sd))"
proof -
  define x where "x = (s, rh, rm, Some ''checkpoint'')"
  have dist: "distinct (map fst (jc_schedules jc))"
    using build by (rule build_schedules_list_distinct)
  from evaluate_schedules_result [OF ret dist] obtain ms where
    ms: "list_all2 (\<lambda>x m. evaluate_schedule jc E T x = Inr m) (jc_schedules jc) ms"
    and res: "result = zip (map fst (jc_schedules jc)) ms
        \<or> (\<exists>l d. result = map (subsume l d) (zip (map fst (jc_schedules jc)) ms))"
    by (auto simp: Let_def split: if_splits)
  from zip_lookup [OF ms dist mem] obtain m where
    m: "map_of (zip (map fst (jc_schedules jc)) ms) s = Some m"
       "evaluate_schedule jc E T x = Inr m"
    by (auto simp: x_def)
  have "is_due m" using due m(2) by (simp add: schedule_is_due_def x_def)
  with m(2) have fields: "prev_checkpoint m = job_last_execution_date jc s"
    "start_date m = (case job_last_execution_date jc s of
                               None \<Rightarrow> None | Some L \<Rightarrow> Some (L + one_us))"
    "backtrack m = None"
    by (auto simp: evaluate_schedule_def x_def Let_def datetime_add_def
          split: sum.splits if_splits option.splits)
  from res have "\<exists>m'. map_of result s = Some m' \<and> prev_checkpoint m' = prev_checkpoint m
      \<and> start_date m' = start_date m \<and> backtrack m' = backtrack m"
    using m(1) by (auto simp: map_of_subsume subsume_def)
  then show ?thesis using fields by (auto simp: one_us_def split: option.splits)
qed

theorem checkpoint_start_date_witness:
  "\<exists>result m. evaluate_schedules example_job example_env 36300000000 = Inr result
     \<and> map_of result ''1h'' = Some m
     \<and> prev_checkpoint m = Some 32400000000
     \<and> start_date m = Some 32400000001
     \<and> backtrack m = None"
proof -
  from example_returns obtain result where
    r: "evaluate_schedules example_job example_env 36300000000 = Inr result" ..
  have mem: "(''1h'', None, None, Some ''checkpoint'') \<in> set (jc_schedules example_job)"
    by (simp add: example_defs)
  have due: "schedule_is_due example_job example_env 36300000000
               (''1h'', None, None, Some ''checkpoint'')"
    by (simp add: example_defs schedule_defs)
  have L: "job_last_execution_date example_job ''1h'' = Some 32400000000"
    by (simp add: example_defs schedule_defs)
  from checkpoint_start_date [OF example_build r mem due] r L
  show ?thesis by (auto simp: one_us_def)
qed


section \<open>Returning a result\<close>

lemma py_timedelta_small:
  assumes "0 \<le> us" and "us < 86400000000"
  shows "py_timedelta us = Inr us"
proof -
  have "us div 86400000000 = 0" using assms by (simp add: div_pos_pos_trivial)
  then show ?thesis by (simp add: py_timedelta_def)
qed

lemma todays_start_returns:
  assumes "recent (utc_today E)"
    and "\<forall>h. rh = Some h \<longrightarrow> 0 \<le> h \<and> h < 24"
    and "\<forall>m. rm = Some m \<longrightarrow> 0 \<le> m \<and> m < 60"
  shows "\<exists>a. todays_start E rh rm = Inr a \<and> 0 \<le> a \<and> a \<le> 4102531200000000"
proof -
  define h where "h = (case rh of None \<Rightarrow> 0 | Some h \<Rightarrow> h)"
  define m where "m = (case rm of None \<Rightarrow> 0 | Some m \<Rightarrow> m)"
  have h: "0 \<le> h" "h < 24" using assms(2) by (auto simp: h_def split: option.splits)
  have m: "0 \<le> m" "m < 60" using assms(3) by (auto simp: m_def split: option.splits)
  have th: "timedelta_hours h = Inr (h * 3600000000)"
    unfolding timedelta_hours_def using h by (intro py_timedelta_small) simp_all
  have tm: "timedelta_minutes m = Inr (m * 60000000)"
    unfolding timedelta_minutes_def using m by (intro py_timedelta_small) simp_all
  have t: "0 \<le> utc_today E" "utc_today E \<le> 4102444800000000"
    using assms(1) by (simp_all add: recent_def)
  have a1: "datetime_add (utc_today E) (h * 3600000000) = Inr (utc_today E + h * 3600000000)"
    using t h by (simp add: datetime_add_def datetime_min_def datetime_max_def)
  have a2: "datetime_add (utc_today E + h * 3600000000) (m * 60000000)
              = Inr (utc_today E + h * 3600000000 + m * 60000000)"
    using t h m by (simp add: datetime_add_def datetime_min_def datetime_max_def)
  have "todays_start E rh rm = Inr (utc_today E + h * 3600000000 + m * 60000000)"
    unfolding todays_start_def h_def [symmetric] m_def [symmetric]
    by (simp add: th tm a1 a2)
  moreover have "0 \<le> utc_today E + h * 3600000000 + m * 60000000" using t h m by simp
  moreover have "utc_today E + h * 3600000000 + m * 60000000 \<le> 4102531200000000"
    using t h m by simp
  ultimately show ?thesis by blast
qed

lemma schedule_anchor_returns:
  assumes "recent (utc_today E)"
    and "\<forall>h. rh = Some h \<longrightarrow> 0 \<le> h \<and> h < 24"
    and "\<forall>m. rm = Some m \<longrightarrow> 0 \<le> m \<and> m < 60"
  shows "\<exists>s. schedule_anchor E t rh rm = Inr s \<and> - 86400000000 \<le> s \<and> s \<le> 4102531200000000"
proof -
  from todays_start_returns [OF assms] obtain a where
    a: "todays_start E rh rm = Inr a" "0 \<le> a" "a \<le> 4102531200000000" by blast
  show ?thesis
    using a
    by (simp add: schedule_anchor_def datetime_sub_def one_day_def datetime_min_def
          datetime_max_def)
qed

lemma round_from_returns:
  assumes "- 86400000000 \<le> s" and "s \<le> 4102531200000000"
    and "- 1000000000000000 \<le> t" and "t \<le> 5200000000000000"
    and "i \<noteq> 0" and "moderate i"
  shows "\<exists>t1. round_from s t i = Inr t1"
proof -
  define x where "x = (t - s) * 1000"
  define p where "p = x div i"
  have i: "\<bar>i\<bar> \<le> 1000000000000000000" using assms(6) by (simp add: moderate_def)
  have x: "\<bar>x\<bar> \<le> 5300000000000000000" using assms(1-4) by (simp add: x_def)
  have "p * i + x mod i = x" unfolding p_def by (rule div_mult_mod_eq)
  moreover have "\<bar>x mod i\<bar> < \<bar>i\<bar>" using assms(5) by (rule abs_mod_less)
  ultimately have pi: "\<bar>p * i\<bar> \<le> 6300000000000000000" using x i by linarith
  have fd: "timedelta_floordiv (t - s) i = Inr p"
    unfolding timedelta_floordiv_def x_def [symmetric] p_def
    using x assms(5) by (simp add: timedelta_bound_def)
  have mu: "timedelta_mul p i = Inr (p * i)"
    using pi by (simp add: timedelta_mul_def timedelta_bound_def)
  have "(- 6300000000000000000) div 1000 \<le> (p * i) div 1000"
    using pi by (intro zdiv_mono1) simp_all
  moreover have "(p * i) div 1000 \<le> 6300000000000000000 div 1000"
    using pi by (intro zdiv_mono1) simp_all
  ultimately have "- 6300000000000000 \<le> (p * i) div 1000"
    and "(p * i) div 1000 \<le> 6300000000000000" by simp_all
  then have "- 62135596800000000 \<le> s + (p * i) div 1000"
    and "s + (p * i) div 1000 \<le> 253402300799999999"
    using assms(1,2) by linarith+
  then have "datetime_add s (whole_microseconds (p * i)) = Inr (s + (p * i) div 1000)"
    by (simp add: datetime_add_def whole_microseconds_def datetime_min_def datetime_max_def)
  with fd mu show ?thesis by (simp add: round_from_def)
qed

text \<open>
  \<^verbatim>\<open>adjust_to_schedule\<close> returns a date for a recent execution date and a recent current
  date, a start hour and minute of the day and an interval that is moderate and not zero.
\<close>

lemma adjust_to_schedule_returns:
  assumes "recent (utc_today E)"
    and "\<forall>h. rh = Some h \<longrightarrow> 0 \<le> h \<and> h < 24"
    and "\<forall>m. rm = Some m \<longrightarrow> 0 \<le> m \<and> m < 60"
    and "- 1000000000000000 \<le> t" and "t \<le> 5200000000000000"
    and "to_timedelta E interval = Some i" and "i \<noteq> 0" and "moderate i"
  shows "\<exists>t1. adjust_to_schedule E t rh rm interval = Inr t1"
proof (cases "rh = None \<and> rm = None")
  case True
  then show ?thesis by (simp add: adjust_to_schedule_def)
next
  case False
  from schedule_anchor_returns [OF assms(1-3)] obtain s where
    s: "schedule_anchor E t rh rm = Inr s" "- 86400000000 \<le> s" "s \<le> 4102531200000000"
    by blast
  have p: "parse_timedelta E interval = Inr i"
    using assms(6,8) by (simp add: parse_timedelta_def moderate_def timedelta_bound_def)
  from round_from_returns [OF s(2,3) assms(4,5,7,8)] obtain t1 where
    "round_from s t i = Inr t1" ..
  then show ?thesis
    unfolding adjust_to_schedule_rounded [OF False] by (simp add: s(1) p)
qed

text \<open>
  \<^verbatim>\<open>evaluate_schedules\<close> returns when the evaluation time, the current date and the dates of
  the job log are recent, every start hour and minute is one of the day, every frequency
  parses to a moderate duration other than zero and every backtrack setting other than
  \<^verbatim>\<open>'checkpoint'\<close> parses to a moderate duration.
\<close>

lemma evaluate_schedule_returns:
  assumes "\<exists>d. to_timedelta E s = Some d \<and> d \<noteq> 0 \<and> moderate d"
    and "\<forall>b. bt = Some b \<and> b \<noteq> ''checkpoint'' \<longrightarrow> (\<exists>d. to_timedelta E b = Some d \<and> moderate d)"
    and "recent T" and "recent (utc_today E)"
    and "\<forall>L. job_last_execution_date jc s = Some L \<longrightarrow> recent L"
    and "\<forall>h. rh = Some h \<longrightarrow> 0 \<le> h \<and> h < 24"
    and "\<forall>m. rm = Some m \<longrightarrow> 0 \<le> m \<and> m < 60"
  shows "\<exists>meta. evaluate_schedule jc E T (s, rh, rm, bt) = Inr meta"
proof -
  from assms(1) obtain d where d: "to_timedelta E s = Some d" "d \<noteq> 0" "moderate d" by blast
  have T: "0 \<le> T" "T \<le> 4102444800000000" using assms(3) by (simp_all add: recent_def)
  have dus: "- 1000000000000000 \<le> d' div 1000 \<and> d' div 1000 \<le> 1000000000000000"
    if "moderate d'" for d' :: int
  proof -
    have b: "\<bar>d'\<bar> \<le> 1000000000000000000" using that by (simp add: moderate_def)
    have "(- 1000000000000000000) div 1000 \<le> d' div 1000"
      using b by (intro zdiv_mono1) simp_all
    moreover have "d' div 1000 \<le> 1000000000000000000 div 1000"
      using b by (intro zdiv_mono1) simp_all
    ultimately show ?thesis by simp
  qed
  have parse: "parse_timedelta E s = Inr d"
    using d by (simp add: parse_timedelta_def moderate_def timedelta_bound_def)
  obtain nd where nd: "get_next_execution_date jc E s T = Inr nd"
    and nd_lo: "- 1000000000000000 \<le> nd" and nd_hi: "nd \<le> 5200000000000000"
  proof (cases "job_last_execution_date jc s")
    case None
    then have "get_next_execution_date jc E s T = Inr T"
      by (simp add: get_next_execution_date_def)
    then show ?thesis using that T by simp
  next
    case (Some L)
    with assms(5) have L: "0 \<le> L" "L \<le> 4102444800000000" by (simp_all add: recent_def)
    have "- 62135596800000000 \<le> L + d div 1000" and "L + d div 1000 \<le> 253402300799999999"
      using L dus [OF d(3)] by linarith+
    then have "get_next_execution_date jc E s T = Inr (L + d div 1000)"
      using Some parse
      by (simp add: get_next_execution_date_def datetime_add_def whole_microseconds_def
            datetime_min_def datetime_max_def)
    moreover have "- 1000000000000000 \<le> L + d div 1000" and "L + d div 1000 \<le> 5200000000000000"
      using L dus [OF d(3)] by linarith+
    ultimately show ?thesis using that by simp
  qed
  from adjust_to_schedule_returns [OF assms(4,6,7) nd_lo nd_hi d]
  obtain rounded where r: "adjust_to_schedule E nd rh rm s = Inr rounded" ..
  show ?thesis
  proof (cases bt)
    case None
    then show ?thesis using nd r by (simp add: evaluate_schedule_def Let_def)
  next
    case (Some b)
    show ?thesis
    proof (cases "b = ''checkpoint''")
      case True
      show ?thesis
      proof (cases "job_last_execution_date jc s")
        case None
        with True Some show ?thesis using nd r by (simp add: evaluate_schedule_def Let_def)
      next
        case (Some L)
        with assms(5) have L: "0 \<le> L" "L \<le> 4102444800000000" by (simp_all add: recent_def)
        then have "datetime_add L one_us = Inr (L + 1)"
          by (simp add: datetime_add_def one_us_def datetime_min_def datetime_max_def)
        with True \<open>bt = Some b\<close> Some show ?thesis
          using nd r by (simp add: evaluate_schedule_def Let_def)
      qed
    next
      case False
      with Some assms(2) obtain bd where bd: "to_timedelta E b = Some bd" "moderate bd" by auto
      have pb: "parse_timedelta E b = Inr bd"
        using bd by (simp add: parse_timedelta_def moderate_def timedelta_bound_def)
      have "- 62135596800000000 \<le> T - bd div 1000"
        and "T - bd div 1000 \<le> 253402300799999999"
        using T dus [OF bd(2)] by linarith+
      then have "datetime_sub T (whole_microseconds bd) = Inr (T - bd div 1000)"
        by (simp add: datetime_sub_def whole_microseconds_def datetime_min_def datetime_max_def)
      with Some False pb show ?thesis
        using nd r by (simp add: evaluate_schedule_def Let_def)
    qed
  qed
qed

lemma evaluate_loop_returns:
  assumes "\<forall>x\<in>set xs. \<exists>meta. evaluate_schedule jc E T x = Inr meta"
  shows "\<exists>res. evaluate_loop jc E T xs st = Inr res"
  using assms
proof (induction xs arbitrary: st)
  case Nil
  obtain sched lst due where "st = (sched, lst, due)" by (rule prod_cases3)
  then show ?case by simp
next
  case (Cons x xs)
  obtain sched lst due where st: "st = (sched, lst, due)" by (rule prod_cases3)
  from Cons.prems obtain meta where m: "evaluate_schedule jc E T x = Inr meta" by auto
  have "\<forall>x\<in>set xs. \<exists>meta. evaluate_schedule jc E T x = Inr meta" using Cons.prems by simp
  from Cons.IH [OF this] show ?case by (simp add: st m)
qed

lemma evaluate_schedules_returns:
  assumes "\<forall>(s, rh, rm, bt)\<in>set (jc_schedules jc).
             (\<exists>d. to_timedelta E s = Some d \<and> d \<noteq> 0 \<and> moderate d)
           \<and> (\<forall>b. bt = Some b \<and> b \<noteq> ''checkpoint'' \<longrightarrow>
                 (\<exists>d. to_timedelta E b = Some d \<and> moderate d))
           \<and> (\<forall>L. job_last_execution_date jc s = Some L \<longrightarrow> recent L)
           \<and> (\<forall>h. rh = Some h \<longrightarrow> 0 \<le> h \<and> h < 24)
           \<and> (\<forall>m. rm = Some m \<longrightarrow> 0 \<le> m \<and> m < 60)"
    and "recent T" and "recent (utc_today E)"
  shows "\<exists>result. evaluate_schedules jc E T = Inr result"
proof -
  have "\<forall>x\<in>set (jc_schedules jc). \<exists>meta. evaluate_schedule jc E T x = Inr meta"
  proof
    fix x assume x: "x \<in> set (jc_schedules jc)"
    obtain s rh rm bt where xe: "x = (s, rh, rm, bt)" by (cases x)
    with x assms(1) have h: "\<exists>d. to_timedelta E s = Some d \<and> d \<noteq> 0 \<and> moderate d"
      "\<forall>b. bt = Some b \<and> b \<noteq> ''checkpoint'' \<longrightarrow> (\<exists>d. to_timedelta E b = Some d \<and> moderate d)"
      "\<forall>L. job_last_execution_date jc s = Some L \<longrightarrow> recent L"
      "\<forall>h. rh = Some h \<longrightarrow> 0 \<le> h \<and> h < 24"
      "\<forall>m. rm = Some m \<longrightarrow> 0 \<le> m \<and> m < 60"
      by auto
    from evaluate_schedule_returns [OF h(1,2) assms(2,3) h(3,4,5)]
    show "\<exists>meta. evaluate_schedule jc E T x = Inr meta" by (simp add: xe)
  qed
  from evaluate_loop_returns [OF this] obtain res where
    "evaluate_loop jc E T (jc_schedules jc) ([], None, []) = Inr res" by blast
  then show ?thesis
    by (cases res) (auto simp: evaluate_schedules_def split: option.splits)
qed

section \<open>Chunks\<close>

lemma chunk_loop_chain:
  assumes "0 \<le> whole_microseconds csize"
    and "ed + whole_microseconds csize \<le> datetime_max"
    and "datetime_min \<le> c"
  shows "\<exists>rest. chunk_loop None csize ed (min (c + whole_microseconds csize) ed) acc
                  = Some (Inr (acc @ rest))
           \<and> chunk_chain (whole_microseconds csize) ed c
                ((Some c, min (c + whole_microseconds csize) ed) # rest)"
  using assms(3)
proof (induction "nat (ed - min (c + whole_microseconds csize) ed)" arbitrary: c acc
         rule: less_induct)
  case less
  define us where "us = whole_microseconds csize"
  define ce where "ce = min (c + us) ed"
  have us: "0 \<le> us" "ed + us \<le> datetime_max" using assms(1,2) by (simp_all add: us_def)
  show ?case
  proof (cases "ce < ed")
    case False
    then have eq: "ce = ed" by (simp add: ce_def)
    have "chunk_loop None csize ed ce acc = Some (Inr (acc @ []))"
      using eq by (subst chunk_loop.simps) simp
    moreover have "chunk_chain us ed c ((Some c, ce) # [])"
      using eq by (simp add: ce_def)
    ultimately show ?thesis unfolding ce_def us_def by blast
  next
    case True
    define c' where "c' = ce + one_us"
    define ce' where "ce' = min (c' + us) ed"
    have ce: "ce = c + us" using True by (simp add: ce_def)
    have c'_min: "datetime_min \<le> c'" using less.prems us(1) by (simp add: c'_def ce one_us_def)
    have c'_le: "c' \<le> ed" using True by (simp add: c'_def one_us_def)
    have step: "datetime_add ce one_us = Inr c'"
      using c'_min c'_le us by (simp add: datetime_add_def c'_def)
    have next_end: "datetime_add c' (whole_microseconds csize) = Inr (c' + us)"
      using c'_min c'_le us by (simp add: datetime_add_def us_def)
    have "ce < ce'" using True us(1) by (simp add: ce'_def c'_def one_us_def)
    moreover have "ce' \<le> ed" by (simp add: ce'_def)
    ultimately have "nat (ed - ce') < nat (ed - ce)" using True by simp
    from less.hyps [of c' "acc @ [(Some c', ce')]", folded us_def, folded ce'_def ce_def,
           OF this c'_min]
    obtain rest where rest: "chunk_loop None csize ed ce' ((acc @ [(Some c', ce')]))
         = Some (Inr ((acc @ [(Some c', ce')]) @ rest))"
       "chunk_chain us ed c' ((Some c', ce') # rest)"
      by blast
    have "chunk_loop None csize ed ce acc = Some (Inr (acc @ ((Some c', ce') # rest)))"
      using True rest(1)
      by (subst chunk_loop.simps)
         (simp add: step next_end exec_payload_method_def ce'_def [symmetric] Let_def)
    moreover have "chunk_chain us ed c ((Some c, ce) # (Some c', ce') # rest)"
      using True rest(2) by (simp add: ce_def c'_def)
    ultimately show ?thesis unfolding ce_def us_def by blast
  qed
qed

lemma chunk_chain_hd:
  "chunk_chain csize ed c cs \<Longrightarrow> cs \<noteq> [] \<and> fst (hd cs) = Some c"
  by (induction csize ed c cs rule: chunk_chain.induct) auto

lemma chunk_chain_last:
  "chunk_chain csize ed c cs \<Longrightarrow> snd (last cs) = ed"
  by (induction csize ed c cs rule: chunk_chain.induct) auto

lemma chunk_chain_bounds:
  assumes "chunk_chain csize ed c cs" and "0 \<le> csize" and "c \<le> ed" and "(s, e) \<in> set cs"
  shows "\<exists>c'. s = Some c' \<and> e = min (c' + csize) ed \<and> c \<le> c' \<and> c' \<le> e"
  using assms
proof (induction csize ed c cs rule: chunk_chain.induct)
  case (1 csize end_date c)
  then show ?case by simp
next
  case (2 csize end_date c s' e')
  then show ?case by auto
next
  case (3 csize end_date c s' e' x xs)
  show ?case
  proof (cases "(s, e) = (s', e')")
    case True
    with 3 show ?thesis by auto
  next
    case False
    with "3.prems" have mem: "(s, e) \<in> set (x # xs)" by auto
    have chain: "chunk_chain csize end_date (e' + one_us) (x # xs)" and lt: "e' < end_date"
      and e': "e' = min (c + csize) end_date"
      using "3.prems"(1) by auto
    have le: "e' + one_us \<le> end_date" using lt by (simp add: one_us_def)
    from "3.IH" [OF chain "3.prems"(2) le mem] obtain c' where
      c': "s = Some c'" "e = min (c' + csize) end_date" "e' + one_us \<le> c'" "c' \<le> e"
      by blast
    have "c \<le> e'" using e' "3.prems"(2,3) by simp
    then have "c \<le> c'" using c'(3) by (simp add: one_us_def)
    with c' show ?thesis by blast
  qed
qed

lemma chunk_chain_consecutive:
  assumes "chunk_chain csize ed c cs" and "Suc i < length cs"
  shows "fst (cs ! Suc i) = Some (snd (cs ! i) + one_us)"
  using assms
proof (induction csize ed c cs arbitrary: i rule: chunk_chain.induct)
  case (1 csize end_date c)
  then show ?case by simp
next
  case (2 csize end_date c s e)
  then show ?case by simp
next
  case (3 csize end_date c s e x xs)
  have chain: "chunk_chain csize end_date (e + one_us) (x # xs)"
    using "3.prems"(1) by auto
  show ?case
  proof (cases i)
    case 0
    then show ?thesis using chunk_chain_hd [OF chain] by simp
  next
    case (Suc k)
    then have "Suc k < length (x # xs)" using "3.prems"(2) by simp
    from "3.IH" [OF chain this] show ?thesis using Suc by simp
  qed
qed

lemma chunk_chain_cover:
  assumes "chunk_chain csize ed c cs" and "0 \<le> csize" and "c \<le> t" and "t \<le> ed"
  shows "\<exists>(s, e)\<in>set cs. \<exists>c'. s = Some c' \<and> c' \<le> t \<and> t \<le> e"
  using assms
proof (induction csize ed c cs rule: chunk_chain.induct)
  case (1 csize end_date c)
  then show ?case by simp
next
  case (2 csize end_date c s e)
  then show ?case by auto
next
  case (3 csize end_date c s e x xs)
  show ?case
  proof (cases "t \<le> e")
    case True
    then show ?thesis using "3.prems" by auto
  next
    case False
    then have le: "e + one_us \<le> t" by (simp add: one_us_def)
    have chain: "chunk_chain csize end_date (e + one_us) (x # xs)"
      using "3.prems"(1) by auto
    from "3.IH" [OF chain "3.prems"(2) le "3.prems"(4)] show ?thesis by auto
  qed
qed

lemma chunk_chain_disjoint:
  assumes "chunk_chain csize ed c cs" and "0 \<le> csize" and "c \<le> ed"
    and "i < j" and "j < length cs"
  shows "\<exists>c'. fst (cs ! j) = Some c' \<and> snd (cs ! i) < c'"
  using assms
proof (induction csize ed c cs arbitrary: i j rule: chunk_chain.induct)
  case (1 csize end_date c)
  then show ?case by simp
next
  case (2 csize end_date c s e)
  then show ?case by simp
next
  case (3 csize end_date c s e x xs)
  have chain: "chunk_chain csize end_date (e + one_us) (x # xs)" and lt: "e < end_date"
    using "3.prems"(1) by auto
  have le: "e + one_us \<le> end_date" using lt by (simp add: one_us_def)
  obtain k where j: "j = Suc k" using "3.prems"(4) by (cases j) auto
  then have k: "k < length (x # xs)" using "3.prems"(5) by simp
  show ?case
  proof (cases i)
    case 0
    have "(x # xs) ! k \<in> set (x # xs)" using k by (rule nth_mem)
    then have "(fst ((x # xs) ! k), snd ((x # xs) ! k)) \<in> set (x # xs)" by simp
    from chunk_chain_bounds [OF chain "3.prems"(2) le this] obtain c' where
      "fst ((x # xs) ! k) = Some c'" "e + one_us \<le> c'" by blast
    then show ?thesis using 0 j by (simp add: one_us_def)
  next
    case (Suc i')
    then have "i' < k" using "3.prems"(4) j by simp
    from "3.IH" [OF chain "3.prems"(2) le this k] show ?thesis using Suc j by simp
  qed
qed


lemma adjust_to_schedule_in_range:
  assumes "adjust_to_schedule E t rh rm interval = Inr t1" and "datetime_min \<le> t"
  shows "datetime_min \<le> t1"
proof (cases "rh = None \<and> rm = None")
  case True
  with assms show ?thesis by (simp add: adjust_to_schedule_def)
next
  case False
  from assms(1) obtain s i where "round_from s t i = Inr t1"
    unfolding adjust_to_schedule_rounded [OF False] by (auto split: sum.splits)
  from round_from_fields [OF this] show ?thesis by simp
qed

text \<open>
  Claim C2. Chunk coverage: for a start date \<open>sd\<close> that is a \<^verbatim>\<open>datetime\<close> and not after the
  end date \<open>ed\<close>, a payload without \<^verbatim>\<open>get_adjusted_start_date\<close>, a chunk size that parses to a
  positive duration and can be added to the end date within the range of \<^verbatim>\<open>datetime\<close>, and a
  schedule adjustment of the start date that returns a date \<open>c0\<close>, the schedule frequency
  being positive where rounding is set, \<^verbatim>\<open>get_chunks\<close> returns a non-empty list of chunks.
  The first chunk starts at \<open>c0\<close>, every later chunk starts one microsecond after the end of
  the chunk before it, every chunk ends at the minimum of its start plus the whole
  microseconds of the chunk size and the end date, the last chunk ends at the end date, every
  time between the start date and the end date lies in a chunk, and a later chunk starts
  strictly after every earlier chunk has ended.
\<close>

theorem get_chunks_coverage:
  assumes no_override: "get_adjusted_start_date (jc_payload jc) = None"
    and csize: "parse_timedelta E
                  (get_payload_param (chunk_size (jc_payload jc)) default_chunk_size) = Inr csize"
    and pos: "0 < csize"
    and le: "sd \<le> ed"
    and lo: "datetime_min \<le> sd"
    and hi: "ed + whole_microseconds csize \<le> datetime_max"
    and adj: "adjust_to_schedule E sd rh rm schedule = Inr c0"
    and freq: "(rh = None \<and> rm = None) \<or> (\<exists>i. to_timedelta E schedule = Some i \<and> 0 < i)"
  shows "\<exists>chunks.
           get_chunks jc E (Some sd) ed rh rm schedule = Some (Inr chunks)
         \<and> chunks \<noteq> [] \<and> fst (hd chunks) = Some c0
         \<and> (\<forall>i. Suc i < length chunks \<longrightarrow>
               fst (chunks ! Suc i) = Some (snd (chunks ! i) + one_us))
         \<and> (\<forall>(s, e)\<in>set chunks.
               \<exists>c. s = Some c \<and> e = min (c + whole_microseconds csize) ed \<and> c \<le> e)
         \<and> snd (last chunks) = ed
         \<and> (\<forall>t. sd \<le> t \<and> t \<le> ed \<longrightarrow>
               (\<exists>(s, e)\<in>set chunks. \<exists>c. s = Some c \<and> c \<le> t \<and> t \<le> e))
         \<and> (\<forall>i j. i < j \<and> j < length chunks \<longrightarrow>
               (\<exists>c. fst (chunks ! j) = Some c \<and> snd (chunks ! i) < c))"
proof -
  define us where "us = whole_microseconds csize"
  have nonneg: "0 \<le> us"
    using pos by (simp add: us_def whole_microseconds_def pos_imp_zdiv_nonneg_iff)
  have hi': "ed + us \<le> datetime_max" using hi by (simp add: us_def)
  have c0_le: "c0 \<le> sd"
  proof (cases "rh = None \<and> rm = None")
    case True
    then show ?thesis using adj by (simp add: adjust_to_schedule_def)
  next
    case False
    with freq obtain i where i: "to_timedelta E schedule = Some i" "0 < i" by blast
    from adjust_to_schedule_le [OF adj i] show ?thesis .
  qed
  have c0_min: "datetime_min \<le> c0" using adj lo by (rule adjust_to_schedule_in_range)
  have c0_ed: "c0 \<le> ed" using c0_le le by simp
  have first_end: "datetime_add c0 (whole_microseconds csize) = Inr (c0 + us)"
    using c0_min c0_ed hi' nonneg by (simp add: datetime_add_def us_def)
  from chunk_loop_chain [OF nonneg [unfolded us_def] hi c0_min,
         of "[(Some c0, min (c0 + us) ed)]", folded us_def]
  obtain rest where
    loop: "chunk_loop None csize ed (min (c0 + us) ed) [(Some c0, min (c0 + us) ed)]
             = Some (Inr ([(Some c0, min (c0 + us) ed)] @ rest))"
    and chain: "chunk_chain us ed c0 ((Some c0, min (c0 + us) ed) # rest)"
    by blast
  define chunks where "chunks = (Some c0, min (c0 + us) ed) # rest"
  have res: "get_chunks jc E (Some sd) ed rh rm schedule = Some (Inr chunks)"
    using adj no_override csize first_end loop
    by (simp add: get_chunks_def exec_payload_method_def Let_def chunks_def)
  have ch: "chunk_chain us ed c0 chunks" using chain by (simp add: chunks_def)
  have p1: "chunks \<noteq> [] \<and> fst (hd chunks) = Some c0" using ch by (rule chunk_chain_hd)
  have p2: "\<forall>i. Suc i < length chunks \<longrightarrow>
               fst (chunks ! Suc i) = Some (snd (chunks ! i) + one_us)"
    using chunk_chain_consecutive [OF ch] by blast
  have p3: "\<forall>(s, e)\<in>set chunks. \<exists>c. s = Some c \<and> e = min (c + us) ed \<and> c \<le> e"
    using chunk_chain_bounds [OF ch nonneg c0_ed] by blast
  have p4: "snd (last chunks) = ed" using ch by (rule chunk_chain_last)
  have p5: "\<forall>t. sd \<le> t \<and> t \<le> ed \<longrightarrow>
               (\<exists>(s, e)\<in>set chunks. \<exists>c. s = Some c \<and> c \<le> t \<and> t \<le> e)"
  proof (intro allI impI)
    fix t assume t: "sd \<le> t \<and> t \<le> ed"
    then have "c0 \<le> t" using c0_le by simp
    from chunk_chain_cover [OF ch nonneg this] t
    show "\<exists>(s, e)\<in>set chunks. \<exists>c. s = Some c \<and> c \<le> t \<and> t \<le> e" by simp
  qed
  have p6: "\<forall>i j. i < j \<and> j < length chunks \<longrightarrow>
               (\<exists>c. fst (chunks ! j) = Some c \<and> snd (chunks ! i) < c)"
    using chunk_chain_disjoint [OF ch nonneg c0_ed] by blast
  from res p1 p2 p3 p4 p5 p6 show ?thesis unfolding us_def by blast
qed

lemmas chunk_defs = get_chunks_def example_defs schedule_defs default_chunk_size_def
  exec_payload_method_def chunk_loop.simps Let_def

lemma example_chunks:
  "get_chunks example_job example_env (Some 0) 1641600000000 (Some 0) None ''1h''
     = Some (Inr [(Some 0, 604800000000), (Some 604800000001, 1209600000001),
                  (Some 1209600000002, 1641600000000)])"
  by (simp add: chunk_defs)

theorem get_chunks_coverage_witness:
  "\<exists>chunks. get_chunks example_job example_env (Some 0) 1641600000000 (Some 0) None ''1h''
               = Some (Inr chunks)
     \<and> chunks \<noteq> [] \<and> fst (hd chunks) = Some 0 \<and> snd (last chunks) = 1641600000000"
proof -
  have h1: "get_adjusted_start_date (jc_payload example_job) = None"
    by (simp add: example_defs)
  have h2: "parse_timedelta example_env
              (get_payload_param (chunk_size (jc_payload example_job)) default_chunk_size)
              = Inr 604800000000000"
    by (simp add: example_defs get_payload_param_def default_chunk_size_def time_defs)
  have h3: "(0::int) < 604800000000000" by simp
  have h4: "(0::int) \<le> 1641600000000" by simp
  have h5: "datetime_min \<le> 0" by (simp add: datetime_min_def)
  have h6: "1641600000000 + whole_microseconds 604800000000000 \<le> datetime_max"
    by (simp add: datetime_max_def whole_microseconds_def)
  have h7: "adjust_to_schedule example_env 0 (Some 0) None ''1h'' = Inr 0"
    by (simp add: example_defs schedule_defs)
  have h8: "(Some (0::int) = None \<and> (None::int option) = None)
              \<or> (\<exists>i. to_timedelta example_env ''1h'' = Some i \<and> 0 < i)"
    by (simp add: example_defs)
  from get_chunks_coverage [OF h1 h2 h3 h4 h5 h6 h7 h8] show ?thesis by auto
qed

text \<open>
  The claim as stated fails in three ways, each with a start date before the end date, no
  payload method and the default chunk size of seven days. With rounding from midnight and
  the schedule frequency \<^verbatim>\<open>'-1h'\<close>, the start date 00:30 is adjusted forward to 01:00, and the
  only chunk starts after the start date, which no chunk covers. With rounding and the
  frequency \<^verbatim>\<open>'0min'\<close> the adjustment divides by zero. Without rounding, for a start date on
  the last day of the year 9999, the sum of the chunk start and the chunk size leaves the
  range of \<^verbatim>\<open>datetime\<close> before the minimum with the end date is taken.
\<close>

theorem get_chunks_coverage_counterexample:
  "get_chunks example_job example_env (Some 1800000000) 7200000000 (Some 0) None ''-1h''
     = Some (Inr [(Some 3600000000, 7200000000)])
   \<and> get_chunks example_job example_env (Some 1800000000) 7200000000 (Some 0) None ''0min''
     = Some (Inl (ZeroDivisionError ''integer division or modulo by zero''))
   \<and> get_chunks example_job example_env (Some 253402214400000000) 253402300799999999
       None None ''5min''
     = Some (Inl (OverflowError ''date value out of range''))"
  by (simp add: chunk_defs)

section \<open>The writer: column selection and row typing\<close>

lemma active_col_step_lookup:
  "map_of (active_col_step M c ps) k =
     (if k = c \<and> col_selected M c
      then (case M c of
              None \<Rightarrow> None
            | Some md \<Rightarrow>
                Some (if dict_get md DATA_ITEM_COLUMN_TYPE_KEY \<in> known_types
                      then dict_get md DATA_ITEM_COLUMN_TYPE_KEY
                      else PStr DATA_ITEM_TYPE_LITERAL,
                      dict_get md DATA_ITEM_SOURCETABLE_KEY))
      else map_of ps k)"
  by (auto simp: active_col_step_def col_selected_def known_types_def Let_def update_conv'
           split: option.splits)

lemma fold_active_lookup:
  "map_of (fold (active_col_step M) cs ps) k =
     (if k \<in> set cs \<and> col_selected M k
      then (case M k of
              None \<Rightarrow> None
            | Some md \<Rightarrow>
                Some (if dict_get md DATA_ITEM_COLUMN_TYPE_KEY \<in> known_types
                      then dict_get md DATA_ITEM_COLUMN_TYPE_KEY
                      else PStr DATA_ITEM_TYPE_LITERAL,
                      dict_get md DATA_ITEM_SOURCETABLE_KEY))
      else map_of ps k)"
proof (induction cs arbitrary: ps)
  case Nil
  then show ?case by simp
next
  case (Cons c cs)
  show ?case
    by (auto simp: Cons.IH active_col_step_lookup)
qed

text \<open>Every selected column carries one of the four known types.\<close>

lemma active_col_step_distinct:
  "distinct (map fst ps) \<Longrightarrow> distinct (map fst (active_col_step M c ps))"
  by (auto simp: active_col_step_def Let_def distinct_update split: option.splits)

lemma fold_active_distinct:
  "distinct (map fst ps) \<Longrightarrow> distinct (map fst (fold (active_col_step M) cs ps))"
  by (induction cs arbitrary: ps) (auto simp: active_col_step_distinct)

lemma active_cols_known_types:
  assumes "(c, t, tbl) \<in> set (get_active_cols_properties M df)"
  shows "t \<in> known_types"
proof -
  have "distinct (map fst (get_active_cols_properties M df))"
    by (simp add: get_active_cols_properties_def fold_active_distinct)
  with assms have "map_of (get_active_cols_properties M df) c = Some (t, tbl)"
    by simp
  then show ?thesis
    by (auto simp: get_active_cols_properties_def fold_active_lookup known_types_def
             split: if_splits option.splits)
qed

lemmas writer_consts = DATA_ITEM_TYPE_BOOLEAN_def DATA_ITEM_TYPE_NUMBER_def
  DATA_ITEM_TYPE_LITERAL_def DATA_ITEM_TYPE_TIMESTAMP_def DATA_ITEM_COLUMN_TYPE_KEY_def
  DATA_ITEM_TRANSIENT_KEY_def DATA_ITEM_SOURCETABLE_KEY_def

text \<open>
  Claim C6, as amended. Writer column selection: a frame column is selected exactly when its
  metadata is present, \<^verbatim>\<open>transient\<close> is the boolean false, and neither \<^verbatim>\<open>sourceTableName\<close> nor
  \<^verbatim>\<open>columnType\<close> is missing; the selected column carries its table name and its column
  type, which is replaced by \<^verbatim>\<open>LITERAL\<close> when it is none of the four known types.
\<close>

theorem writer_column_selection:
  "map_of (get_active_cols_properties M df) c =
     (case M c of
        None \<Rightarrow> None
      | Some md \<Rightarrow>
          if c \<in> set (columns df)
             \<and> dict_get md DATA_ITEM_TRANSIENT_KEY = PBool False
             \<and> dict_get md DATA_ITEM_SOURCETABLE_KEY \<noteq> PNone
             \<and> dict_get md DATA_ITEM_COLUMN_TYPE_KEY \<noteq> PNone
          then Some (if dict_get md DATA_ITEM_COLUMN_TYPE_KEY \<in> known_types
                     then dict_get md DATA_ITEM_COLUMN_TYPE_KEY
                     else PStr DATA_ITEM_TYPE_LITERAL,
                     dict_get md DATA_ITEM_SOURCETABLE_KEY)
          else None)"
  by (simp add: get_active_cols_properties_def fold_active_lookup col_selected_def
           split: option.splits)

text \<open>
  The claim as stated fails for metadata that has a table name and a column type and no
  \<^verbatim>\<open>transient\<close> entry: \<^verbatim>\<open>transient\<close> is not true and nothing the claim lists is missing, and the
  column is skipped.
\<close>

theorem writer_column_selection_counterexample:
  "example_metadata ''temp'' =
       Some [''columnType'' \<mapsto> PStr ''NUMBER'', ''sourceTableName'' \<mapsto> PStr ''tableT'']
   \<and> ''temp'' \<in> set (columns example_frame)
   \<and> dict_get [''columnType'' \<mapsto> PStr ''NUMBER'', ''sourceTableName'' \<mapsto> PStr ''tableT'']
        DATA_ITEM_TRANSIENT_KEY \<noteq> PBool True
   \<and> map_of (get_active_cols_properties example_metadata example_frame) ''temp'' = None
   \<and> get_active_cols_properties example_metadata example_frame
        = [(''alarm'', PStr ''LITERAL'', PStr ''tableT'')]"
  by (simp add: get_active_cols_properties_def active_col_step_def example_metadata_def
        example_frame_def columns_def dict_get_def writer_consts)




text \<open>
  Every row that \<^verbatim>\<open>_persist_dataframe\<close> hands to the driver is a row that the loop body
  made from a cell of the frame, so the typing of the loop body is the typing of the rows
  written.
\<close>

lemma update_memD:
  "(a, b) \<in> set (AList.update k v al) \<Longrightarrow> (a, b) = (k, v) \<or> (a, b) \<in> set al"
  by (induction al) (auto split: if_splits)

lemma persist_tuples_rows_all:
  assumes "persist_tuples W t rl st = Inr st'" and "rows_all P st" and "\<forall>row\<in>set rl. P row"
  shows "rows_all P st'"
proof -
  from assms(1) obtain n where
    st': "st' = st \<lparr> row_lists := AList.update t [] (row_lists st),
                     written := written st @ [(t, rl)],
                     counter := counter st + n \<rparr>"
    by (auto simp: persist_tuples_def split: option.splits)
  have "\<forall>(t', rl')\<in>set (AList.update t [] (row_lists st)). \<forall>row\<in>set rl'. P row"
    using assms(2) by (fastforce simp: rows_all_def dest!: update_memD)
  then show ?thesis using assms(2,3) by (auto simp: rows_all_def st')
qed

lemma persist_items_rows_all:
  assumes "persist_items R W ix df_row items st = Inr st'" and "rows_all P st"
    and "\<forall>(item_name, item_type, table_name)\<in>set items. \<forall>v row.
           map_of df_row item_name = Some v \<longrightarrow>
           cell_row R (table_props W) ix item_name item_type table_name v = Inr (Some row) \<longrightarrow>
           P row"
  shows "rows_all P st'"
  using assms
proof (induction items arbitrary: st)
  case Nil
  then show ?case by simp
next
  case (Cons item items)
  obtain item_name item_type table_name where item: "item = (item_name, item_type, table_name)"
    by (cases item)
  from Cons.prems(1) obtain v r where
    v: "map_of df_row item_name = Some v"
    and r: "cell_row R (table_props W) ix item_name item_type table_name v = Inr r"
    by (auto simp: item split: option.splits sum.splits)
  have rest: "\<forall>(item_name, item_type, table_name)\<in>set items. \<forall>v row.
           map_of df_row item_name = Some v \<longrightarrow>
           cell_row R (table_props W) ix item_name item_type table_name v = Inr (Some row) \<longrightarrow>
           P row"
    using Cons.prems(3) by simp
  show ?case
  proof (cases r)
    case None
    with Cons.prems(1) v r have "persist_items R W ix df_row items st = Inr st'"
      by (simp add: item)
    from Cons.IH [OF this Cons.prems(2) rest] show ?thesis .
  next
    case (Some row)
    have Prow: "P row" using Cons.prems(3) v r Some by (auto simp: item)
    from Cons.prems(1) v r Some obtain row_list where
      rl: "map_of (row_lists st) table_name = Some row_list"
      by (auto simp: item split: option.splits)
    have old: "\<forall>row\<in>set row_list. P row"
      using Cons.prems(2) map_of_SomeD [OF rl] by (auto simp: rows_all_def)
    show ?thesis
    proof (cases "length (row_list @ [row]) \<ge> MAX_NUMBER_OF_ROWS_FOR_SQL")
      case True
      with Cons.prems(1) v r Some rl obtain st1 where
        st1: "persist_tuples W table_name (row_list @ [row]) st = Inr st1"
        and rec: "persist_items R W ix df_row items st1 = Inr st'"
        by (auto simp: item split: sum.splits)
      have "rows_all P st1"
        using persist_tuples_rows_all [OF st1 Cons.prems(2)] old Prow by simp
      from Cons.IH [OF rec this rest] show ?thesis .
    next
      case False
      with Cons.prems(1) v r Some rl have
        rec: "persist_items R W ix df_row items
                 (st \<lparr> row_lists := AList.update table_name (row_list @ [row]) (row_lists st) \<rparr>)
               = Inr st'"
        by (simp add: item)
      have "rows_all P
              (st \<lparr> row_lists := AList.update table_name (row_list @ [row]) (row_lists st) \<rparr>)"
        using Cons.prems(2) old Prow
        by (fastforce simp: rows_all_def dest!: update_memD)
      from Cons.IH [OF rec this rest] show ?thesis .
    qed
  qed
qed

lemma persist_rows_rows_all:
  assumes "persist_rows R W rows st = Inr st'" and "rows_all P st"
    and "\<forall>(ix, df_row)\<in>set rows. \<forall>(item_name, item_type, table_name)\<in>set (col_props W).
           \<forall>v row. map_of df_row item_name = Some v \<longrightarrow>
           cell_row R (table_props W) ix item_name item_type table_name v = Inr (Some row) \<longrightarrow>
           P row"
  shows "rows_all P st'"
  using assms
proof (induction rows arbitrary: st)
  case Nil
  then show ?case by simp
next
  case (Cons x rows)
  obtain ix df_row where x: "x = (ix, df_row)" by (cases x)
  from Cons.prems(1) obtain st1 where
    st1: "persist_items R W ix df_row (col_props W) st = Inr st1"
    and rec: "persist_rows R W rows st1 = Inr st'"
    by (auto simp: x split: sum.splits)
  have "rows_all P st1"
    using persist_items_rows_all [OF st1 Cons.prems(2)] Cons.prems(3) by (simp add: x)
  moreover have "\<forall>(ix, df_row)\<in>set rows.
           \<forall>(item_name, item_type, table_name)\<in>set (col_props W).
           \<forall>v row. map_of df_row item_name = Some v \<longrightarrow>
           cell_row R (table_props W) ix item_name item_type table_name v = Inr (Some row) \<longrightarrow>
           P row"
    using Cons.prems(3) by simp
  ultimately show ?case using Cons.IH [OF rec] by blast
qed

lemma flush_row_lists_rows_all:
  assumes "flush_row_lists W rls st = Inr st'" and "rows_all P st"
    and "\<forall>(t, rl)\<in>set rls. \<forall>row\<in>set rl. P row"
  shows "rows_all P st'"
  using assms
proof (induction rls arbitrary: st)
  case Nil
  then show ?case by simp
next
  case (Cons x rls)
  obtain t rl where x: "x = (t, rl)" by (cases x)
  have rest: "\<forall>(t, rl)\<in>set rls. \<forall>row\<in>set rl. P row" using Cons.prems(3) by simp
  show ?case
  proof (cases "length rl > 0")
    case True
    with Cons.prems(1) obtain st1 where
      st1: "persist_tuples W t rl st = Inr st1" and rec: "flush_row_lists W rls st1 = Inr st'"
      by (auto simp: x split: sum.splits)
    have "rows_all P st1"
      using persist_tuples_rows_all [OF st1 Cons.prems(2)] Cons.prems(3) by (simp add: x)
    from Cons.IH [OF rec this rest] show ?thesis .
  next
    case False
    with Cons.prems(1) have "flush_row_lists W rls st = Inr st'" by (simp add: x)
    from Cons.IH [OF this Cons.prems(2) rest] show ?thesis .
  qed
qed

lemma persist_dataframe_rows:
  assumes "persist_dataframe R W df st = Inr st'"
    and "\<forall>(t, rl)\<in>set (row_lists st). rl = []" and "written st = []"
  shows "\<forall>(t, b)\<in>set (written st'). \<forall>row\<in>set b. row_of_frame R W df row"
proof -
  from assms(1) obtain st1 where
    st1: "persist_rows R W (itertuples df) (st \<lparr> counter := 0 \<rparr>) = Inr st1"
    and fl: "flush_row_lists W (row_lists st1) st1 = Inr st'"
    by (auto simp: persist_dataframe_def split: sum.splits)
  have init: "rows_all (row_of_frame R W df) (st \<lparr> counter := 0 \<rparr>)"
    using assms(2,3) by (auto simp: rows_all_def)
  have "rows_all (row_of_frame R W df) st1"
    by (rule persist_rows_rows_all [OF st1 init]) (fastforce simp: row_of_frame_def)
  moreover from this have "\<forall>(t, rl)\<in>set (row_lists st1). \<forall>row\<in>set rl. row_of_frame R W df row"
    by (simp add: rows_all_def)
  ultimately have "rows_all (row_of_frame R W df) st'"
    using flush_row_lists_rows_all [OF fl] by blast
  then show ?thesis by (simp add: rows_all_def)
qed

lemmas stage_examples = example_stage_def example_halting_stage_def example_next_stage_def
  example_aggregator_def example_stage_metadata_def

lemmas merge_defs = execute_def merge_step_def merge_non_dataframe_def merge_dataframe_def
  add_constant_def setitem_def setitem_scalar_def frame_empty_def empty_frame_def get_cols_def
  get_index_names_def index_name_def columns_def clear_data_def

section \<open>Merging\<close>

lemma columns_update: "fst ` set (AList.update k v al) = insert k (fst ` set al)"
  by (simp add: dom_update)

lemma setitem_scalar_columns [simp]:
  "set (columns (setitem_scalar df c x)) = insert c (set (columns df))"
  by (simp add: setitem_scalar_def columns_def columns_update)

lemma setitem_scalar_index [simp]:
  "index (setitem_scalar df c x) = index df"
  "index_names (setitem_scalar df c x) = index_names df"
  by (simp_all add: setitem_scalar_def)

lemma setitem_scalar_nonempty:
  "\<not> frame_empty df \<Longrightarrow> \<not> frame_empty (setitem_scalar df c x)"
  by (simp add: frame_empty_def setitem_scalar_def)

lemma setitem_column:
  assumes "setitem P df c v = Inr df'" and "pandas_laws P"
  shows "c \<in> set (columns df')"
proof (cases v)
  case NoneVal
  with assms(1) show ?thesis by (auto simp: setitem_def)
next
  case (Scalar x)
  with assms(1) show ?thesis by (auto simp: setitem_def)
next
  case (ListLike xs)
  with assms(1) show ?thesis
    by (auto simp: setitem_def columns_def columns_update split: if_splits)
next
  case (Table rows)
  with assms show ?thesis by (auto simp: setitem_def pandas_laws_def)
qed

lemma setitem_rows:
  assumes "setitem P df c v = Inr df'" and "pandas_laws P" and "index df \<noteq> []"
  shows "index df' = index df"
    and "k \<noteq> c \<Longrightarrow> map_of (cols df') k = map_of (cols df) k"
    and "broadcast (length (index df)) v = Some xs \<Longrightarrow> map_of (cols df') c = Some xs"
proof -
  have "index df' = index df
      \<and> (k \<noteq> c \<longrightarrow> map_of (cols df') k = map_of (cols df) k)
      \<and> (broadcast (length (index df)) v = Some xs \<longrightarrow> map_of (cols df') c = Some xs)"
  proof (cases v)
    case NoneVal
    with assms(1) show ?thesis
      by (auto simp: setitem_def setitem_scalar_def update_conv')
  next
    case (Scalar x)
    with assms(1) show ?thesis
      by (auto simp: setitem_def setitem_scalar_def update_conv')
  next
    case (ListLike ys)
    with assms(1,3) show ?thesis
      by (auto simp: setitem_def update_conv' split: if_splits)
  next
    case (Table rows)
    with assms show ?thesis by (auto simp: setitem_def pandas_laws_def)
  qed
  then show "index df' = index df"
    and "k \<noteq> c \<Longrightarrow> map_of (cols df') k = map_of (cols df) k"
    and "broadcast (length (index df)) v = Some xs \<Longrightarrow> map_of (cols df') c = Some xs"
    by simp_all
qed

lemma setitem_nonempty:
  assumes "setitem P df c v = Inr df'" and "pandas_laws P" and "\<not> frame_empty df"
  shows "\<not> frame_empty df'"
proof -
  have rows: "index df \<noteq> []" using assms(3) by (simp add: frame_empty_def)
  have "index df' = index df" using setitem_rows(1) [OF assms(1,2) rows] .
  moreover have "c \<in> set (columns df')" using assms(1,2) by (rule setitem_column)
  ultimately show ?thesis using rows by (auto simp: frame_empty_def columns_def)
qed

lemma apply_constants_loop_nonempty:
  assumes "apply_constants_loop P cs df = Inr df'" and "pandas_laws P" and "\<not> frame_empty df"
  shows "\<not> frame_empty df'"
  using assms
proof (induction cs arbitrary: df)
  case Nil
  then show ?case by simp
next
  case (Cons x cs)
  obtain name v where x: "x = (name, v)" by (cases x)
  from Cons.prems(1) obtain df1 where
    s: "setitem P df name v = Inr df1" and rest: "apply_constants_loop P cs df1 = Inr df'"
    by (auto simp: x split: sum.splits)
  have "\<not> frame_empty df1" using setitem_nonempty [OF s Cons.prems(2,3)] .
  from Cons.IH [OF rest Cons.prems(2) this] show ?case .
qed

lemma coalesce_loop_inv:
  assumes "coalesce_loop suffix cs (df, altered) = (df', altered')"
  shows "index df' = index df \<and> set (columns df') = set (columns df)
       \<and> set altered' \<subseteq> set altered \<union> {c @ suffix | c. c \<in> set (columns df)}"
  using assms
proof (induction cs arbitrary: df altered)
  case Nil
  then show ?case by auto
next
  case (Cons c cs)
  show ?case
  proof (cases "map_of (cols df) c")
    case None
    with Cons.prems have "coalesce_loop suffix cs (df, altered) = (df', altered')" by simp
    from Cons.IH [OF this] show ?thesis .
  next
    case (Some xs)
    then have c_col: "c \<in> set (columns df)"
      by (auto simp: columns_def dest: map_of_SomeD intro: rev_image_eqI)
    show ?thesis
    proof (cases "map_of (cols df) (c @ suffix)")
      case None
      with Cons.prems Some have "coalesce_loop suffix cs (df, altered) = (df', altered')" by simp
      from Cons.IH [OF this] show ?thesis .
    next
      case (Some ys)
      define df1 where "df1 = df \<lparr> cols := AList.update c (fillna xs ys) (cols df) \<rparr>"
      from Cons.prems \<open>map_of (cols df) c = Some xs\<close> Some have
        "coalesce_loop suffix cs (df1, altered @ [c @ suffix]) = (df', altered')"
        by (simp add: df1_def)
      from Cons.IH [OF this] have
        ih: "index df' = index df1" "set (columns df') = set (columns df1)"
          "set altered' \<subseteq> set (altered @ [c @ suffix]) \<union> {c @ suffix | c. c \<in> set (columns df1)}"
        by auto
      have "set (columns df1) = set (columns df)"
        using c_col by (auto simp: df1_def columns_def columns_update)
      moreover have "index df1 = index df" by (simp add: df1_def)
      ultimately show ?thesis using ih c_col by auto
    qed
  qed
qed

lemma shortest_element:
  "xs \<noteq> [] \<Longrightarrow> \<exists>x\<in>set xs. \<forall>y\<in>set xs. length x \<le> length (y :: 'a list)"
proof (induction xs)
  case Nil
  then show ?case by simp
next
  case (Cons a xs)
  show ?case
  proof (cases "xs = []")
    case True
    then show ?thesis by simp
  next
    case False
    from Cons.IH [OF this] obtain x where x: "x \<in> set xs" "\<forall>y\<in>set xs. length x \<le> length y"
      by blast
    show ?thesis
    proof (cases "length a \<le> length x")
      case True
      with x show ?thesis by force
    next
      case False
      with x show ?thesis by force
    qed
  qed
qed

lemma coalesce_cols_nonempty:
  assumes "suffix \<noteq> []" and "\<not> frame_empty df"
  shows "\<not> frame_empty (coalesce_cols df suffix)"
proof -
  obtain df' altered where
    loop: "coalesce_loop suffix (columns df) (df, []) = (df', altered)"
    by (cases "coalesce_loop suffix (columns df) (df, [])")
  from coalesce_loop_inv [OF loop] have
    inv: "index df' = index df" "set (columns df') = set (columns df)"
      "set altered \<subseteq> {c @ suffix | c. c \<in> set (columns df)}"
    by auto
  have ne: "columns df' \<noteq> []"
    using inv(2) assms(2) by (auto simp: frame_empty_def columns_def)
  from shortest_element [OF ne] obtain m where
    m: "m \<in> set (columns df')" "\<forall>y\<in>set (columns df'). length m \<le> length y"
    by blast
  have "m \<notin> set altered"
  proof
    assume "m \<in> set altered"
    with inv(3) obtain c where c: "m = c @ suffix" "c \<in> set (columns df)" by auto
    from m(2) inv(2) c(2) have "length m \<le> length c" by blast
    then have "length suffix = 0" unfolding c(1) by simp
    with assms(1) show False by simp
  qed
  with m(1) have "filter (\<lambda>(x, xs). x \<notin> set altered) (cols df') \<noteq> []"
    by (auto simp: columns_def filter_empty_conv)
  then show ?thesis
    using loop inv(1) assms(2) ne
    by (auto simp: coalesce_cols_def frame_empty_def columns_def)
qed

lemma skip_fold_columns:
  "set (columns (fold (\<lambda>c f. setitem_scalar f c x) cs df)) = set cs \<union> set (columns df)"
  by (induction cs arbitrary: df) auto

lemma skip_fold_index_names:
  "index_names (fold (\<lambda>c f. setitem_scalar f c x) cs df) = index_names df"
  by (induction cs arbitrary: df) auto

lemma slice_loop_nonempty:
  "\<not> frame_empty df \<Longrightarrow> \<not> frame_empty (slice_loop df cs)"
proof (induction cs arbitrary: df)
  case Nil
  then show ?case by simp
next
  case (Cons x cs)
  obtain c xs where x: "x = (c, xs)" by (cases x)
  have "\<not> frame_empty (df \<lparr> cols := AList.update c xs (cols df) \<rparr>)"
    using Cons.prems by (simp add: frame_empty_def)
  from Cons.IH [OF this] show ?case by (simp add: x)
qed

lemma choose_strategy_nonempty:
  assumes "choose_strategy dm df col_names force_overwrite = Inr st"
  shows "st = Replace \<Longrightarrow> \<not> frame_empty df"
    and "st = Slice \<or> st = Outer \<or> st = Lookup
           \<Longrightarrow> \<not> frame_empty df \<and> \<not> frame_empty (dm_df dm)"
  using assms by (auto simp: choose_strategy_def Let_def split: if_splits)

lemma apply_constants_nonempty:
  assumes "apply_constants P dm = Inr dm'" and "pandas_laws P" and "\<not> frame_empty (dm_df dm)"
  shows "\<not> frame_empty (dm_df dm')"
proof -
  from assms(1) obtain df where
    loop: "apply_constants_loop P (constants dm) (dm_df dm) = Inr df" and dm': "dm' = dm \<lparr> dm_df := df \<rparr>"
    by (auto simp: apply_constants_def split: sum.splits)
  from apply_constants_loop_nonempty [OF loop assms(2,3)] show ?thesis by (simp add: dm')
qed

lemma r_suffix_nonempty: "r_suffix \<noteq> []"
  by (simp add: r_suffix_def)

lemma merge_dataframe_post:
  assumes "merge_dataframe P dm obj col_names force_overwrite = Inr dm'" and "pandas_laws P"
  shows "\<not> frame_empty (dm_df dm') \<or> set col_names \<subseteq> get_cols (dm_df dm')"
proof -
  from assms(1) obtain df st where
    inc: "incoming_frame obj col_names = Inr df"
    and st: "choose_strategy dm df col_names force_overwrite = Inr st"
    by (auto simp: merge_dataframe_def split: sum.splits)
  show ?thesis
  proof (cases st)
    case Skip
    with assms(1) inc st have
      "dm_df dm' = fold (\<lambda>c f. setitem_scalar f c PNone)
                     (filter (\<lambda>x. x \<notin> set (columns (dm_df dm))) col_names) (dm_df dm)"
      by (auto simp: merge_dataframe_def Let_def)
    then have "set col_names \<subseteq> set (columns (dm_df dm'))"
      by (auto simp: skip_fold_columns)
    then show ?thesis by (auto simp: get_cols_def)
  next
    case Replace
    with assms(1) inc st have ac: "apply_constants P (dm \<lparr> dm_df := df \<rparr>) = Inr dm'"
      by (simp add: merge_dataframe_def)
    have "\<not> frame_empty df" using choose_strategy_nonempty(1) [OF st Replace] .
    then show ?thesis using apply_constants_nonempty [OF ac assms(2)] by simp
  next
    case Slice
    with assms(1) inc st have "dm_df dm' = slice_loop (dm_df dm) (cols df)"
      by (auto simp: merge_dataframe_def)
    moreover have "\<not> frame_empty (dm_df dm)"
      using choose_strategy_nonempty(2) [OF st] Slice by simp
    ultimately show ?thesis by (simp add: slice_loop_nonempty)
  next
    case Outer
    with assms(1) inc st obtain merged where
      m: "pd_merge_outer P (dm_df dm) df = Inr merged"
      and ac: "apply_constants P (dm \<lparr> dm_df := coalesce_cols merged r_suffix \<rparr>) = Inr dm'"
      by (auto simp: merge_dataframe_def split: sum.splits)
    have ne: "\<not> frame_empty df \<and> \<not> frame_empty (dm_df dm)"
      using choose_strategy_nonempty(2) [OF st] Outer by simp
    with m assms(2) have "\<not> frame_empty merged"
      unfolding pandas_laws_def by blast
    then have "\<not> frame_empty (coalesce_cols merged r_suffix)"
      using r_suffix_nonempty by (rule coalesce_cols_nonempty [rotated])
    then show ?thesis using apply_constants_nonempty [OF ac assms(2)] by simp
  next
    case Lookup
    with assms(1) inc st obtain flat merged indexed where
      f: "pd_reset_index P (dm_df dm) = Inr flat"
      and m: "pd_merge_left P flat df (index_name df) = Inr merged"
      and i: "pd_set_index P merged (get_index_names (dm_df dm)) = Inr indexed"
      and dm': "dm' = dm \<lparr> dm_df := coalesce_cols indexed r_suffix \<rparr>"
      by (auto simp: merge_dataframe_def Let_def split: sum.splits)
    have ne: "\<not> frame_empty df \<and> \<not> frame_empty (dm_df dm)"
      using choose_strategy_nonempty(2) [OF st] Lookup by simp
    with f m i assms(2) have "\<not> frame_empty indexed"
      unfolding pandas_laws_def by blast
    then have "\<not> frame_empty (coalesce_cols indexed r_suffix)"
      using r_suffix_nonempty by (rule coalesce_cols_nonempty [rotated])
    then show ?thesis by (simp add: dm')
  next
    case NoStrategy
    with assms(1) inc st show ?thesis
      by (auto simp: merge_dataframe_def split: if_splits)
  qed
qed

lemma merge_non_dataframe_post:
  assumes "merge_non_dataframe P dm v col_names = Inr dm'" and "pandas_laws P"
  shows "set col_names \<subseteq> get_cols (dm_df dm')"
proof -
  from assms(1) obtain c where c: "col_names = [c]"
    by (auto simp: merge_non_dataframe_def split: list.splits)
  from assms(1) c obtain df where
    s: "setitem P (dm_df dm) c v = Inr df" and df: "dm_df dm' = df"
    by (auto simp: merge_non_dataframe_def add_constant_def split: if_splits sum.splits error.splits)
  from setitem_column [OF s assms(2)] show ?thesis by (simp add: c df get_cols_def)
qed

lemma merge_step_post:
  assumes "merge_step P dm obj col_names force_overwrite = Inr dm'" and "pandas_laws P"
  shows "\<not> frame_empty (dm_df dm') \<or> set col_names \<subseteq> get_cols (dm_df dm')"
proof (cases obj)
  case ObjDict
  with assms(1) show ?thesis by (simp add: merge_step_def)
next
  case (ObjFrame df)
  with assms(1) have "merge_dataframe P dm obj col_names force_overwrite = Inr dm'"
    by (simp add: merge_step_def)
  from merge_dataframe_post [OF this assms(2)] show ?thesis .
next
  case (ObjSeries ser)
  with assms(1) have "merge_dataframe P dm obj col_names force_overwrite = Inr dm'"
    by (simp add: merge_step_def)
  from merge_dataframe_post [OF this assms(2)] show ?thesis .
next
  case (ObjValue v)
  show ?thesis
  proof (cases "length col_names > 1 \<and> v \<noteq> NoneVal")
    case True
    with assms(1) ObjValue obtain df where
      "merge_dataframe P dm (ObjFrame df) col_names force_overwrite = Inr dm'"
      by (auto simp: merge_step_def split: sum.splits)
    from merge_dataframe_post [OF this assms(2)] show ?thesis .
  next
    case False
    with assms(1) ObjValue have "merge_non_dataframe P dm v col_names = Inr dm'"
      by (auto simp: merge_step_def)
    from merge_non_dataframe_post [OF this assms(2)] show ?thesis by simp
  qed
qed

text \<open>
  Claim C3. Merge postcondition: with pandas as described by \<open>pandas_laws\<close>, a call of
  \<^verbatim>\<open>DataMerge.execute\<close> that returns has every name of \<^verbatim>\<open>col_names\<close> among the columns or the
  index names of the resulting frame; and when the merge itself went through and left a
  name of \<^verbatim>\<open>col_names\<close> out, the call fails with the \<^verbatim>\<open>ValueError\<close> of the final test. This
  covers every strategy of \<^verbatim>\<open>merge_dataframe\<close> and \<^verbatim>\<open>merge_non_dataframe\<close>.
\<close>

theorem merge_postcondition:
  assumes "pandas_laws P"
  shows "(\<forall>dm'. execute P dm obj col_names force_overwrite = Inr dm'
            \<longrightarrow> set col_names \<subseteq> get_cols (dm_df dm'))
       \<and> (\<forall>dm'. merge_step P dm obj col_names force_overwrite = Inr dm'
                \<and> \<not> set col_names \<subseteq> get_cols (dm_df dm')
            \<longrightarrow> (\<exists>msg. execute P dm obj col_names force_overwrite = Inl (ValueError msg)))"
proof (intro conjI allI impI)
  fix dm'
  assume ex: "execute P dm obj col_names force_overwrite = Inr dm'"
  then have ms: "merge_step P dm obj col_names force_overwrite = Inr dm'"
    and chk: "\<not> (\<not> frame_empty (dm_df dm') \<and> \<not> set col_names \<subseteq> get_cols (dm_df dm'))"
    by (auto simp: execute_def split: sum.splits if_splits)
  from merge_step_post [OF ms assms] chk
  show "set col_names \<subseteq> get_cols (dm_df dm')" by blast
next
  fix dm'
  assume a: "merge_step P dm obj col_names force_overwrite = Inr dm'
               \<and> \<not> set col_names \<subseteq> get_cols (dm_df dm')"
  then have "\<not> frame_empty (dm_df dm')"
    using merge_step_post [OF _ assms] by blast
  with a show "\<exists>msg. execute P dm obj col_names force_overwrite = Inl (ValueError msg)"
    by (simp add: execute_def)
qed

lemma example_pandas_laws: "pandas_laws example_pandas"
  by (auto simp: pandas_laws_def example_pandas_def frame_empty_def)

lemma apply_constants_loop_columns:
  assumes "apply_constants_loop P cs g = Inr h" and "pandas_laws P" and "index g \<noteq> []"
    and "distinct (map fst cs)"
  shows "index h = index g
       \<and> (\<forall>k. k \<notin> fst ` set cs \<longrightarrow> map_of (cols h) k = map_of (cols g) k)
       \<and> (\<forall>(k, v)\<in>set cs. \<forall>xs. broadcast (length (index g)) v = Some xs
             \<longrightarrow> map_of (cols h) k = Some xs)"
  using assms
proof (induction cs arbitrary: g)
  case Nil
  then show ?case by simp
next
  case (Cons x cs)
  obtain name v where x: "x = (name, v)" by (cases x)
  from Cons.prems(1) obtain g1 where
    s: "setitem P g name v = Inr g1" and rest: "apply_constants_loop P cs g1 = Inr h"
    by (auto simp: x split: sum.splits)
  note rows = setitem_rows [OF s Cons.prems(2,3)]
  have idx: "index g1 = index g" by (rule rows(1))
  then have ne: "index g1 \<noteq> []" using Cons.prems(3) by simp
  have d: "distinct (map fst cs)" and fresh: "name \<notin> fst ` set cs"
    using Cons.prems(4) by (auto simp: x)
  from Cons.IH [OF rest Cons.prems(2) ne d] have
    ih1: "index h = index g1"
    and ih2: "\<And>k. k \<notin> fst ` set cs \<Longrightarrow> map_of (cols h) k = map_of (cols g1) k"
    and ih3: "\<And>k v xs. (k, v) \<in> set cs \<Longrightarrow> broadcast (length (index g1)) v = Some xs
                 \<Longrightarrow> map_of (cols h) k = Some xs"
    by auto
  have "index h = index g" using ih1 idx by simp
  moreover have "map_of (cols h) k = map_of (cols g) k" if "k \<notin> fst ` set (x # cs)" for k
  proof -
    from that have "k \<noteq> name" "k \<notin> fst ` set cs" by (auto simp: x)
    then show ?thesis using ih2 rows(2) by simp
  qed
  moreover have "map_of (cols h) k = Some xs"
    if "(k, w) \<in> set (x # cs)" "broadcast (length (index g)) w = Some xs" for k w xs
  proof (cases "(k, w) = (name, v)")
    case True
    then have "map_of (cols g1) name = Some xs" using rows(3) that(2) by simp
    then show ?thesis using ih2 [OF fresh] True by simp
  next
    case False
    with that(1) have "(k, w) \<in> set cs" by (auto simp: x)
    then show ?thesis using ih3 that(2) idx by simp
  qed
  ultimately show ?case by blast
qed

text \<open>
  Claim C4. Outer merge preserves constants: when the merge selects the outer strategy and
  completes, every constant of the constants dictionary fills its column of the resulting
  frame in every row, the rows that the join added included: a scalar or \<^verbatim>\<open>None\<close> is in
  every row of the column, and a list is the column. The dictionary has each name once.
\<close>

theorem outer_merge_preserves_constants:
  assumes laws: "pandas_laws P"
    and dict: "distinct (map fst (constants dm))"
    and inc: "incoming_frame obj col_names = Inr df"
    and st: "choose_strategy dm df col_names force_overwrite = Inr Outer"
    and res: "merge_dataframe P dm obj col_names force_overwrite = Inr dm'"
  shows "\<forall>(k, v)\<in>set (constants dm). \<forall>xs.
           broadcast (length (index (dm_df dm'))) v = Some xs
             \<longrightarrow> map_of (cols (dm_df dm')) k = Some xs"
proof -
  from res inc st obtain merged where
    m: "pd_merge_outer P (dm_df dm) df = Inr merged"
    and ac: "apply_constants P (dm \<lparr> dm_df := coalesce_cols merged r_suffix \<rparr>) = Inr dm'"
    by (auto simp: merge_dataframe_def split: sum.splits)
  define g where "g = coalesce_cols merged r_suffix"
  from ac obtain h where
    loop: "apply_constants_loop P (constants dm) g = Inr h" and h: "dm_df dm' = h"
    by (auto simp: apply_constants_def g_def split: sum.splits)
  have "\<not> frame_empty df \<and> \<not> frame_empty (dm_df dm)"
    using choose_strategy_nonempty(2) [OF st] by simp
  with m laws have "\<not> frame_empty merged"
    unfolding pandas_laws_def by blast
  then have "\<not> frame_empty g"
    unfolding g_def using r_suffix_nonempty by (rule coalesce_cols_nonempty [rotated])
  then have rows: "index g \<noteq> []" by (simp add: frame_empty_def)
  from apply_constants_loop_columns [OF loop laws rows dict] show ?thesis
    by (auto simp: h)
qed

lemma example_incoming_frame:
  "incoming_frame (ObjFrame example_incoming) [''y''] = Inr example_incoming"
  by (simp add: incoming_frame_def example_incoming_def columns_def)

lemma example_strategy:
  "choose_strategy example_merge example_incoming [''y''] False = Inr Outer"
  by (simp add: choose_strategy_def example_merge_def example_incoming_def frame_empty_def
        get_index_names_def index_name_def List.map_filter_def columns_def)

lemma example_joined:
  "pd_merge_outer example_pandas (dm_df example_merge) example_incoming
     = Inr \<lparr> index_names = [Some ''id'', Some ''ts''],
             index = [[PStr ''A'', PTimestamp 0], [PStr ''B'', PTimestamp 1]],
             cols = [(''x'', [PInt 1, PFloat NaN]),
                     (''k'', [PStr ''v'', PFloat NaN]),
                     (''y'', [PFloat NaN, PInt 2])] \<rparr>"
  by (simp add: example_pandas_def example_merge_def example_incoming_def columns_def)

lemma example_coalesced:
  "coalesce_cols \<lparr> index_names = [Some ''id'', Some ''ts''],
             index = [[PStr ''A'', PTimestamp 0], [PStr ''B'', PTimestamp 1]],
             cols = [(''x'', [PInt 1, PFloat NaN]),
                     (''k'', [PStr ''v'', PFloat NaN]),
                     (''y'', [PFloat NaN, PInt 2])] \<rparr> r_suffix
    = \<lparr> index_names = [Some ''id'', Some ''ts''],
             index = [[PStr ''A'', PTimestamp 0], [PStr ''B'', PTimestamp 1]],
             cols = [(''x'', [PInt 1, PFloat NaN]),
                     (''k'', [PStr ''v'', PFloat NaN]),
                     (''y'', [PFloat NaN, PInt 2])] \<rparr>"
  by (simp add: coalesce_cols_def columns_def r_suffix_def)

lemma example_outer_merge:
  "merge_dataframe example_pandas example_merge (ObjFrame example_incoming) [''y''] False
     = Inr example_merged"
proof -
  have "apply_constants example_pandas
          (example_merge \<lparr> dm_df := \<lparr> index_names = [Some ''id'', Some ''ts''],
             index = [[PStr ''A'', PTimestamp 0], [PStr ''B'', PTimestamp 1]],
             cols = [(''x'', [PInt 1, PFloat NaN]),
                     (''k'', [PStr ''v'', PFloat NaN]),
                     (''y'', [PFloat NaN, PInt 2])] \<rparr> \<rparr>) = Inr example_merged"
    by (simp add: apply_constants_def example_merge_def example_merged_def setitem_def
          setitem_scalar_def)
  then show ?thesis
    by (simp add: merge_dataframe_def example_incoming_frame example_strategy example_joined
          example_coalesced)
qed

theorem outer_merge_preserves_constants_witness:
  "\<exists>dm'. merge_dataframe example_pandas example_merge (ObjFrame example_incoming) [''y''] False
            = Inr dm'
        \<and> index (dm_df dm') = [[PStr ''A'', PTimestamp 0], [PStr ''B'', PTimestamp 1]]
        \<and> map_of (cols (dm_df dm')) ''k'' = Some [PStr ''v'', PStr ''v'']"
proof -
  have d: "distinct (map fst (constants example_merge))" by (simp add: example_merge_def)
  have k: "(''k'', Scalar (PStr ''v'')) \<in> set (constants example_merge)"
    by (simp add: example_merge_def)
  have n: "length (index (dm_df example_merged)) = 2" by (simp add: example_merged_def)
  from outer_merge_preserves_constants
         [OF example_pandas_laws d example_incoming_frame example_strategy example_outer_merge] k
  have "\<forall>xs. broadcast (length (index (dm_df example_merged))) (Scalar (PStr ''v'')) = Some xs
           \<longrightarrow> map_of (cols (dm_df example_merged)) ''k'' = Some xs"
    by blast
  then have "map_of (cols (dm_df example_merged)) ''k'' = Some (replicate 2 (PStr ''v''))"
    by (simp add: n)
  then have "map_of (cols (dm_df example_merged)) ''k'' = Some [PStr ''v'', PStr ''v'']"
    by (simp add: numeral_2_eq_2)
  moreover have "index (dm_df example_merged) = [[PStr ''A'', PTimestamp 0], [PStr ''B'', PTimestamp 1]]"
    by (simp add: example_merged_def)
  ultimately show ?thesis using example_outer_merge by blast
qed

theorem merge_postcondition_witness:
  "(\<exists>dm'. execute example_pandas example_merge (ObjFrame example_incoming) [''y''] False = Inr dm'
         \<and> set [''y''] \<subseteq> get_cols (dm_df dm'))
   \<and> (\<exists>msg. execute example_pandas example_merge (ObjFrame example_incoming) [''y'', ''z''] False
               = Inl (ValueError msg))"
proof -
  have cols: "get_cols (dm_df example_merged) = {''id'', ''ts'', ''x'', ''k'', ''y''}"
    by (auto simp: example_merged_def get_cols_def get_index_names_def index_name_def
          List.map_filter_def columns_def)
  have ne: "\<not> frame_empty (dm_df example_merged)"
    by (simp add: example_merged_def frame_empty_def)
  have ok: "execute example_pandas example_merge (ObjFrame example_incoming) [''y''] False
     = Inr example_merged"
    by (simp add: execute_def merge_step_def example_outer_merge cols)
  have inc2: "incoming_frame (ObjFrame example_incoming) [''y'', ''z''] = Inr example_incoming"
    by (simp add: incoming_frame_def example_incoming_def columns_def)
  have st2: "choose_strategy example_merge example_incoming [''y'', ''z''] False = Inr Outer"
    by (simp add: choose_strategy_def example_merge_def example_incoming_def frame_empty_def
          get_index_names_def index_name_def List.map_filter_def columns_def)
  have ac: "apply_constants example_pandas
          (example_merge \<lparr> dm_df := \<lparr> index_names = [Some ''id'', Some ''ts''],
             index = [[PStr ''A'', PTimestamp 0], [PStr ''B'', PTimestamp 1]],
             cols = [(''x'', [PInt 1, PFloat NaN]),
                     (''k'', [PStr ''v'', PFloat NaN]),
                     (''y'', [PFloat NaN, PInt 2])] \<rparr> \<rparr>) = Inr example_merged"
    by (simp add: apply_constants_def example_merge_def example_merged_def setitem_def
          setitem_scalar_def)
  have step: "merge_step example_pandas example_merge (ObjFrame example_incoming)
                [''y'', ''z''] False = Inr example_merged"
    using ac
    by (simp add: merge_step_def merge_dataframe_def inc2 st2 example_joined example_coalesced)
  have missing: "\<not> set [''y'', ''z''] \<subseteq> get_cols (dm_df example_merged)"
    by (simp add: cols)
  note post1 = merge_postcondition [OF example_pandas_laws, of example_merge
      "ObjFrame example_incoming" "[''y'']" False]
  note post2 = merge_postcondition [OF example_pandas_laws, of example_merge
      "ObjFrame example_incoming" "[''y'', ''z'']" False]
  from post1 ok have "\<exists>dm'. execute example_pandas example_merge (ObjFrame example_incoming)
                                [''y''] False = Inr dm'
         \<and> set [''y''] \<subseteq> get_cols (dm_df dm')"
    by blast
  moreover from post2 step missing
  have "\<exists>msg. execute example_pandas example_merge (ObjFrame example_incoming) [''y'', ''z''] False
               = Inl (ValueError msg)"
    by blast
  ultimately show ?thesis by blast
qed

section \<open>Stage results\<close>

lemma execute_stage_true:
  assumes "stage_execute s df start_ts end_ts = Inr (ObjValue (Scalar (PBool True)))"
  shows "execute_stage s df start_ts end_ts = Inr (ObjFrame empty_frame)"
  using assms by (simp add: execute_stage_def)

lemma execute_stage_other:
  assumes "stage_execute s df start_ts end_ts = Inr result"
    and "result \<noteq> ObjValue (Scalar (PBool True))"
  shows "execute_stage s df start_ts end_ts = Inr result"
  using assms by (simp add: execute_stage_def)

text \<open>
  Claim C7. Stage result normalization and halt: a returned \<^verbatim>\<open>True\<close> becomes an empty frame
  and any other value is passed on as it is, but a returned \<^verbatim>\<open>False\<close> does not halt. Here the
  stage \<open>check\<close> returns \<^verbatim>\<open>False\<close>: \<^verbatim>\<open>execute_stage\<close> passes the \<^verbatim>\<open>False\<close> on, the merge stores
  it as the constant \<open>ok\<close>, the next stage \<open>load\<close> is executed, and \<^verbatim>\<open>execute_stages\<close> returns
  with \<^verbatim>\<open>can_proceed\<close> true.
\<close>

theorem stage_false_does_not_halt:
  "execute_stage example_halting_stage empty_frame None None
     = Inr (ObjValue (Scalar (PBool False)))
   \<and> execute_stages example_pandas [example_halting_stage, example_next_stage]
        None None None None
     = Inr (\<lparr> index_names = [None], index = [], cols = [(''ok'', []), (''x'', [])] \<rparr>,
            True, [''check'', ''load''])"
  by (simp add: execute_stages_def execute_stage_def get_stage_param_def stage_examples merge_defs)

section \<open>Simple aggregators\<close>

lemma single_input_message:
  "percent_format ''A simple aggregator must take a single input item. %s has items: %s'' [name]
     = Inl (TypeError ''not enough arguments for format string'')"
  by simp

lemma single_output_message:
  "percent_format ''A simple aggregator must produce a single output  %s has items: %s'' [name]
     = Inl (TypeError ''not enough arguments for format string'')"
  by simp

lemma simple_aggregator_bad_arity:
  assumes "fcard (input_set s) \<noteq> 1 \<or> length (output_list s) \<noteq> 1"
  shows "simple_aggregators_loop (s # rest) (agg_dict, inputs, outputs)
           = Inl (TypeError ''not enough arguments for format string'')"
  using assms
  by (auto simp only: simple_aggregators_loop.simps single_input_message single_output_message
        sum.case if_True if_False split: if_splits)

text \<open>
  With one input item and one output item in every simple aggregator the loop succeeds:
  the outputs are collected in order and \<^verbatim>\<open>agg_dict\<close> has a key for every input item.
\<close>

lemma simple_aggregators_succeed:
  assumes "\<forall>s\<in>set stages. fcard (input_set s) = 1 \<and> length (output_list s) = 1"
  shows "\<exists>agg_dict' inputs'.
           simple_aggregators_loop stages (agg_dict, inputs, outputs)
             = Inr (agg_dict', inputs', outputs @ map (\<lambda>s. hd (output_list s)) stages)
         \<and> fst ` set agg_dict'
             = fst ` set agg_dict \<union> (\<lambda>s. fthe_elem (input_set s)) ` set stages"
  using assms
proof (induction stages arbitrary: agg_dict inputs outputs)
  case Nil
  then show ?case by simp
next
  case (Cons s stages)
  define i where "i = fthe_elem (input_set s)"
  define m where "m = (case agg_function s of None \<Rightarrow> StageExecute (stage_name s)
                                  | Some f \<Rightarrow> AggFunction f)"
  define d where "d = (case map_of agg_dict i of
                           Some methods \<Rightarrow> AList.update i (methods @ [m]) agg_dict
                         | None \<Rightarrow> AList.update i [m] agg_dict)"
  have keys: "fst ` set d = insert i (fst ` set agg_dict)"
    by (auto simp: d_def dom_update split: option.splits)
  have step: "simple_aggregators_loop (s # stages) (agg_dict, inputs, outputs)
        = simple_aggregators_loop stages (d, finsert i inputs, outputs @ [hd (output_list s)])"
    unfolding i_def m_def d_def using Cons.prems by (simp add: Let_def)
  have "\<forall>s\<in>set stages. fcard (input_set s) = 1 \<and> length (output_list s) = 1"
    using Cons.prems by simp
  from Cons.IH [OF this, of d "finsert i inputs" "outputs @ [hd (output_list s)]"]
  show ?case using step keys by (auto simp: i_def)
qed

text \<open>
  Claim C9. Simple-aggregator arity failure: a simple aggregator with two input items makes
  \<^verbatim>\<open>collapse_aggregation_stages\<close> fail, but the error is not one that names the stage. The
  message is formatted with the stage name alone for two conversions, so the call raises
  \<^verbatim>\<open>TypeError: not enough arguments for format string\<close> before the \<^verbatim>\<open>ValueError\<close> is built.
\<close>

theorem bad_aggregator_raises_type_error:
  "collapse_aggregation_stages example_stage_metadata (Some ''daily'')
       (Some {|''temp'', ''pressure''|})
     = Inl (TypeError ''not enough arguments for format string'')"
  by (simp add: collapse_aggregation_stages_def get_stages_def stage_examples fcard_finsert_if)

end
